theory Spec2Isabelle
  imports Main
begin

unbundle bit_operations_syntax

section \<open>The planarity session adapter (tl\_planarity.c)\<close>

text \<open>
  The adapter drives the edge-addition planarity library through the macros and
  functions of graphLib.h. That header and the library behind it are not part of the
  adapter's source file, so the library is a parameter of the model: a record holding
  the status codes, the minor-type bits, the operations that build and embed a graph, and
  the read-only macros the adapter uses to inspect it. The graph itself is an opaque
  value of type \<open>'g\<close>. An operation that updates the graph through its pointer and
  returns a status code is a function to a pair of the status and the updated graph.

  C \<open>int\<close> values are modelled as unbounded integers. The adapter's own arithmetic is
  the capacity request \<open>max (2 * m + 4) (6 * n)\<close>, handed to the library, and the
  counters of its loops, which count arcs, edges or vertices the library holds.
\<close>

record 'g graphLib =
  OK :: int
  NOTOK :: int
  NONEMBEDDABLE :: int
  MINORTYPE_A :: int
  MINORTYPE_B :: int
  MINORTYPE_C :: int
  MINORTYPE_D :: int
  MINORTYPE_E :: int
  MINORTYPE_E1 :: int
  MINORTYPE_E2 :: int
  MINORTYPE_E3 :: int
  MINORTYPE_E4 :: int
  gp_New :: "'g option"
  gp_EnsureArcCapacity :: "'g \<Rightarrow> int \<Rightarrow> int \<times> 'g"
  gp_InitGraph :: "'g \<Rightarrow> int \<Rightarrow> int \<times> 'g"
  gp_AddEdge :: "'g \<Rightarrow> int \<Rightarrow> int \<Rightarrow> int \<Rightarrow> int \<Rightarrow> int \<times> 'g"
  gp_Embed :: "'g \<Rightarrow> int \<Rightarrow> int \<times> 'g"
  gp_SortVertices :: "'g \<Rightarrow> 'g"
  gp_EdgeIndexBound :: "'g \<Rightarrow> int"
  gp_EdgeInUseIndexBound :: "'g \<Rightarrow> int"
  gp_GetFirstEdge :: "'g \<Rightarrow> int"
  gp_EdgeInUse :: "'g \<Rightarrow> int \<Rightarrow> bool"
  gp_GetTwinArc :: "'g \<Rightarrow> int \<Rightarrow> int"
  gp_GetNeighbor :: "'g \<Rightarrow> int \<Rightarrow> int"
  gp_GetFirstArc :: "'g \<Rightarrow> int \<Rightarrow> int"
  gp_GetNextArc :: "'g \<Rightarrow> int \<Rightarrow> int"
  gp_IsArc :: "int \<Rightarrow> bool"
  gp_VirtualVertexInUse :: "'g \<Rightarrow> int \<Rightarrow> bool"
  IC_minorType :: "'g \<Rightarrow> int"

text \<open>
  The six file-scope variables. A null pointer is \<open>None\<close>. The arc map is a heap
  block of \<open>int\<close> cells, a list; its recorded size is a separate variable, as in
  the source.
\<close>

record 'g session =
  g_graph :: "'g option"
  g_edgeIdByArc :: "int list option"
  g_edgeIdByArcSize :: int
  g_vertexCount :: int
  g_edgeCount :: int
  g_lastEmbedResult :: int

text \<open>
  An array the caller passes by pointer (the endpoint arrays \<open>u\<close>, \<open>v\<close> and the
  output buffers) is the function from index to cell content: the adapter never learns
  its length and does no bounds check on it.
\<close>

type_synonym buffer = "int \<Rightarrow> int"

definition initial_session :: "'g session" where
  "initial_session =
     \<lparr>g_graph = None, g_edgeIdByArc = None, g_edgeIdByArcSize = 0,
      g_vertexCount = 0, g_edgeCount = 0, g_lastEmbedResult = 0\<rparr>"

subsection \<open>tl\_clear\_state and tl\_planarity\_free\<close>

definition tl_clear_state :: "'g session \<Rightarrow> 'g session" where
  "tl_clear_state s =
     (let s1 = (if g_graph s \<noteq> None then s\<lparr>g_graph := None\<rparr> else s);
          s2 = (if g_edgeIdByArc s1 \<noteq> None then s1\<lparr>g_edgeIdByArc := None\<rparr> else s1)
      in s2\<lparr>g_edgeIdByArcSize := 0, g_vertexCount := 0, g_edgeCount := 0,
            g_lastEmbedResult := 0\<rparr>)"

definition tl_planarity_free :: "'g session \<Rightarrow> 'g session" where
  "tl_planarity_free s = tl_clear_state s"

subsection \<open>tl\_planarity\_run\<close>

text \<open>The edge insertion loop; it stops at the first insertion that is not OK.\<close>

fun add_edges :: "'g graphLib \<Rightarrow> 'g \<Rightarrow> buffer \<Rightarrow> buffer \<Rightarrow> int list \<Rightarrow> bool \<times> 'g" where
  "add_edges L g u v [] = (True, g)"
| "add_edges L g u v (i # is) =
     (case gp_AddEdge L g (u i) 0 (v i) 0 of
        (r, g') \<Rightarrow> if r \<noteq> OK L then (False, g') else add_edges L g' u v is)"

text \<open>
  The inner loop of the matching phase: the first edge \<open>e\<close> of the candidates that is
  not yet used and whose endpoints are those of the arc, in either order. It is marked
  used. Without a match the result is \<open>-1\<close>.
\<close>

fun find_match :: "buffer \<Rightarrow> buffer \<Rightarrow> int \<Rightarrow> int \<Rightarrow> bool list \<Rightarrow> int list \<Rightarrow> int \<times> bool list" where
  "find_match u v uArc vArc edgeUsed [] = (-1, edgeUsed)"
| "find_match u v uArc vArc edgeUsed (e # es) =
     (if edgeUsed ! nat e then find_match u v uArc vArc edgeUsed es
      else if (u e = uArc \<and> v e = vArc) \<or> (u e = vArc \<and> v e = uArc)
           then (e, edgeUsed[nat e := True])
           else find_match u v uArc vArc edgeUsed es)"

definition store_edgeId :: "int \<Rightarrow> int \<Rightarrow> int \<Rightarrow> int list \<Rightarrow> int list" where
  "store_edgeId mapSize arc match tab =
     (if arc \<ge> 0 \<and> arc < mapSize then tab[nat arc := match] else tab)"

text \<open>The body of the outer loop of the matching phase, for one arc handle.\<close>

definition match_arc ::
  "'g graphLib \<Rightarrow> 'g \<Rightarrow> int \<Rightarrow> buffer \<Rightarrow> buffer \<Rightarrow> int \<Rightarrow> int \<Rightarrow> bool list \<times> int list
     \<Rightarrow> bool list \<times> int list" where
  "match_arc L g m u v mapSize arc st =
     (case st of (edgeUsed, tab) \<Rightarrow>
        if \<not> gp_EdgeInUse L g arc then (edgeUsed, tab)
        else let twinArc = gp_GetTwinArc L g arc in
          if twinArc < arc then (edgeUsed, tab)
          else let uArc = gp_GetNeighbor L g twinArc;
                   vArc = gp_GetNeighbor L g arc
               in case find_match u v uArc vArc edgeUsed [0..m - 1] of
                    (match, edgeUsed') \<Rightarrow>
                      if match \<ge> 0
                      then (edgeUsed', store_edgeId mapSize twinArc match (store_edgeId mapSize arc match tab))
                      else (edgeUsed', tab))"

fun match_arcs ::
  "'g graphLib \<Rightarrow> 'g \<Rightarrow> int \<Rightarrow> buffer \<Rightarrow> buffer \<Rightarrow> int \<Rightarrow> int list \<Rightarrow> bool list \<times> int list
     \<Rightarrow> bool list \<times> int list" where
  "match_arcs L g m u v mapSize [] st = st"
| "match_arcs L g m u v mapSize (arc # arcs) st =
     match_arcs L g m u v mapSize arcs (match_arc L g m u v mapSize arc st)"

text \<open>
  The matching phase as a whole, from the freshly filled map (every cell \<open>-1\<close>) and the
  zeroed scratch array to the finished map.
\<close>

definition build_arc_map ::
  "'g graphLib \<Rightarrow> 'g \<Rightarrow> int \<Rightarrow> buffer \<Rightarrow> buffer \<Rightarrow> int \<Rightarrow> int list \<Rightarrow> int list" where
  "build_arc_map L g m u v mapSize tab =
     (let edgeBound = gp_EdgeInUseIndexBound L g
      in snd (match_arcs L g m u v mapSize [gp_GetFirstEdge L g..edgeBound - 1]
                (replicate (nat m) False, tab)))"

text \<open>
  The run. \<open>mallocOk\<close> and \<open>callocOk\<close> say whether the allocation of the arc map and
  of the scratch array succeed. The result is the returned status and the session the
  call leaves behind.
\<close>

definition tl_planarity_run ::
  "'g graphLib \<Rightarrow> bool \<Rightarrow> bool \<Rightarrow> 'g session \<Rightarrow> int \<Rightarrow> int \<Rightarrow> buffer \<Rightarrow> buffer \<Rightarrow> int
     \<Rightarrow> int \<times> 'g session" where
  "tl_planarity_run L mallocOk callocOk s0 n m u v embedFlags =
     (let s1 = tl_clear_state s0 in
      if n \<le> 0 then (NOTOK L, s1)
      else if m < 0 then (NOTOK L, s1)
      else let s2 = s1\<lparr>g_vertexCount := n, g_edgeCount := m\<rparr> in
        case gp_New L of
          None \<Rightarrow> (NOTOK L, s2)
        | Some g0 \<Rightarrow>
            let requiredArcs = (if m * 2 + 4 < 6 * n then 6 * n else m * 2 + 4) in
            case gp_EnsureArcCapacity L g0 requiredArcs of (r1, g1) \<Rightarrow>
              if r1 \<noteq> OK L then (NOTOK L, s2\<lparr>g_graph := Some g1\<rparr>)
              else case gp_InitGraph L g1 n of (r2, g2) \<Rightarrow>
                if r2 \<noteq> OK L then (NOTOK L, s2\<lparr>g_graph := Some g2\<rparr>)
                else let mapSize = gp_EdgeIndexBound L g2;
                         s3 = s2\<lparr>g_graph := Some g2, g_edgeIdByArcSize := mapSize\<rparr> in
                  if \<not> mallocOk then (NOTOK L, s3)
                  else let tab = replicate (nat mapSize) (-1) in
                    case add_edges L g2 u v [0..m - 1] of
                      (False, g3) \<Rightarrow>
                        (NOTOK L, s3\<lparr>g_graph := Some g3, g_edgeIdByArc := Some tab,
                                      g_lastEmbedResult := NOTOK L\<rparr>)
                    | (True, g3) \<Rightarrow>
                        let s4 = s3\<lparr>g_graph := Some g3, g_edgeIdByArc := Some tab\<rparr> in
                        if \<not> callocOk then (NOTOK L, s4)
                        else let tab' = build_arc_map L g3 m u v mapSize tab in
                          case gp_Embed L g3 embedFlags of (r, g4) \<Rightarrow>
                            let g5 = (if r = OK L \<or> r = NONEMBEDDABLE L
                                      then gp_SortVertices L g4 else g4)
                            in (r, s4\<lparr>g_graph := Some g5, g_edgeIdByArc := Some tab',
                                      g_lastEmbedResult := r\<rparr>))"

subsection \<open>Reading the arc map\<close>

text \<open>
  The guarded read \<open>(arc >= 0 && arc < g_edgeIdByArcSize) ? g_edgeIdByArc[arc] : -1\<close>.
  Inside the guard the cell is read through the pointer; the read is \<open>None\<close> where
  the pointer is null or the block is shorter than the recorded size, which C leaves
  undefined.
\<close>

definition edgeId_of_arc :: "'g session \<Rightarrow> int \<Rightarrow> int option" where
  "edgeId_of_arc s arc =
     (if arc \<ge> 0 \<and> arc < g_edgeIdByArcSize s
      then (case g_edgeIdByArc s of
              None \<Rightarrow> None
            | Some tab \<Rightarrow> if nat arc < length tab then Some (tab ! nat arc) else None)
      else Some (-1))"

subsection \<open>Rotation extraction\<close>

text \<open>
  The walk over one vertex's arcs follows \<open>gp_GetNextArc\<close> until \<open>gp_IsArc\<close> fails.
  Nothing in the adapter bounds it, so the walk is a partial function: \<open>None\<close> is a
  call that does not return a result.
\<close>

partial_function (option) count_arcs :: "'g graphLib \<Rightarrow> 'g \<Rightarrow> int \<Rightarrow> int \<Rightarrow> int option" where
  "count_arcs L g arc tot =
     (if gp_IsArc L arc then count_arcs L g (gp_GetNextArc L g arc) (tot + 1)
      else Some tot)"

fun rotation_size_loop :: "'g graphLib \<Rightarrow> 'g \<Rightarrow> int list \<Rightarrow> int \<Rightarrow> int option" where
  "rotation_size_loop L g [] tot = Some tot"
| "rotation_size_loop L g (v # vs) tot =
     (case count_arcs L g (gp_GetFirstArc L g v) tot of
        None \<Rightarrow> None
      | Some tot' \<Rightarrow> rotation_size_loop L g vs tot')"

definition tl_planarity_rotation_size :: "'g graphLib \<Rightarrow> 'g session \<Rightarrow> int option" where
  "tl_planarity_rotation_size L s =
     (case g_graph s of
        None \<Rightarrow> Some 0
      | Some g \<Rightarrow>
          if g_lastEmbedResult s \<noteq> OK L then Some 0
          else rotation_size_loop L g [0..g_vertexCount s - 1] 0)"

text \<open>The three output buffers of \<open>tl_planarity_write_rotation\<close>.\<close>

record rotation_out =
  offsets :: buffer
  edgeIds :: buffer
  neighbors :: buffer

partial_function (option) write_arcs ::
  "'g graphLib \<Rightarrow> 'g session \<Rightarrow> 'g \<Rightarrow> int \<Rightarrow> int \<times> rotation_out \<Rightarrow> (int \<times> rotation_out) option" where
  "write_arcs L s g arc st =
     (if gp_IsArc L arc
      then (case edgeId_of_arc s arc of
              None \<Rightarrow> None
            | Some edgeId \<Rightarrow>
                write_arcs L s g (gp_GetNextArc L g arc)
                  (fst st + 1,
                   (snd st)\<lparr>edgeIds := (edgeIds (snd st))(fst st := edgeId),
                            neighbors := (neighbors (snd st))(fst st := gp_GetNeighbor L g arc)\<rparr>))
      else Some st)"

fun write_rotation_loop ::
  "'g graphLib \<Rightarrow> 'g session \<Rightarrow> 'g \<Rightarrow> int list \<Rightarrow> int \<times> rotation_out \<Rightarrow> (int \<times> rotation_out) option" where
  "write_rotation_loop L s g [] st = Some st"
| "write_rotation_loop L s g (v # vs) st =
     (case write_arcs L s g (gp_GetFirstArc L g v)
             (fst st, (snd st)\<lparr>offsets := (offsets (snd st))(v := fst st)\<rparr>) of
        None \<Rightarrow> None
      | Some st' \<Rightarrow> write_rotation_loop L s g vs st')"

definition tl_planarity_write_rotation ::
  "'g graphLib \<Rightarrow> 'g session \<Rightarrow> rotation_out \<Rightarrow> rotation_out option" where
  "tl_planarity_write_rotation L s out =
     (case g_graph s of
        None \<Rightarrow> Some out
      | Some g \<Rightarrow>
          if g_lastEmbedResult s \<noteq> OK L then Some out
          else (case write_rotation_loop L s g [0..g_vertexCount s - 1] (0, out) of
                  None \<Rightarrow> None
                | Some (cursor, out') \<Rightarrow>
                    Some (out'\<lparr>offsets := (offsets out')(g_vertexCount s := cursor)\<rparr>)))"

subsection \<open>Witness extraction\<close>

text \<open>
  The two witness-edge functions run the same loop over the arc handles; one counts,
  the other writes. \<open>seen\<close> is the zeroed scratch array of \<open>g_edgeCount\<close> cells.
  \<open>callocOk\<close> says whether its allocation succeeds.
\<close>

fun witness_edge_count_loop ::
  "'g graphLib \<Rightarrow> 'g session \<Rightarrow> 'g \<Rightarrow> int list \<Rightarrow> bool list \<times> int \<Rightarrow> (bool list \<times> int) option" where
  "witness_edge_count_loop L s g [] st = Some st"
| "witness_edge_count_loop L s g (arc # arcs) st =
     (if \<not> gp_EdgeInUse L g arc then witness_edge_count_loop L s g arcs st
      else case edgeId_of_arc s arc of
             None \<Rightarrow> None
           | Some edgeId \<Rightarrow>
               if edgeId \<ge> 0 \<and> edgeId < g_edgeCount s \<and> \<not> fst st ! nat edgeId
               then witness_edge_count_loop L s g arcs ((fst st)[nat edgeId := True], snd st + 1)
               else witness_edge_count_loop L s g arcs st)"

definition tl_planarity_witness_edge_count :: "'g graphLib \<Rightarrow> bool \<Rightarrow> 'g session \<Rightarrow> int option" where
  "tl_planarity_witness_edge_count L callocOk s =
     (case g_graph s of
        None \<Rightarrow> Some 0
      | Some g \<Rightarrow>
          if g_lastEmbedResult s \<noteq> NONEMBEDDABLE L then Some 0
          else if \<not> callocOk then Some 0
          else let edgeBound = gp_EdgeInUseIndexBound L g in
            map_option snd
              (witness_edge_count_loop L s g [gp_GetFirstEdge L g..edgeBound - 1]
                 (replicate (nat (g_edgeCount s)) False, 0)))"

fun write_witness_edges_loop ::
  "'g graphLib \<Rightarrow> 'g session \<Rightarrow> 'g \<Rightarrow> int list \<Rightarrow> bool list \<times> int \<times> buffer
     \<Rightarrow> (bool list \<times> int \<times> buffer) option" where
  "write_witness_edges_loop L s g [] st = Some st"
| "write_witness_edges_loop L s g (arc # arcs) st =
     (if \<not> gp_EdgeInUse L g arc then write_witness_edges_loop L s g arcs st
      else case edgeId_of_arc s arc of
             None \<Rightarrow> None
           | Some edgeId \<Rightarrow>
               (case st of (seen, cursor, out) \<Rightarrow>
                  if edgeId \<ge> 0 \<and> edgeId < g_edgeCount s \<and> \<not> seen ! nat edgeId
                  then write_witness_edges_loop L s g arcs
                         (seen[nat edgeId := True], cursor + 1, out(cursor := edgeId))
                  else write_witness_edges_loop L s g arcs st))"

definition tl_planarity_write_witness_edges ::
  "'g graphLib \<Rightarrow> bool \<Rightarrow> 'g session \<Rightarrow> buffer \<Rightarrow> buffer option" where
  "tl_planarity_write_witness_edges L callocOk s out =
     (case g_graph s of
        None \<Rightarrow> Some out
      | Some g \<Rightarrow>
          if g_lastEmbedResult s \<noteq> NONEMBEDDABLE L then Some out
          else if \<not> callocOk then Some out
          else let edgeBound = gp_EdgeInUseIndexBound L g in
            map_option (\<lambda>st. snd (snd st))
              (write_witness_edges_loop L s g [gp_GetFirstEdge L g..edgeBound - 1]
                 (replicate (nat (g_edgeCount s)) False, 0, out)))"

fun witness_vertex_count_loop :: "'g graphLib \<Rightarrow> 'g \<Rightarrow> int list \<Rightarrow> int \<Rightarrow> int" where
  "witness_vertex_count_loop L g [] count = count"
| "witness_vertex_count_loop L g (v # vs) count =
     (if gp_VirtualVertexInUse L g v then witness_vertex_count_loop L g vs (count + 1)
      else witness_vertex_count_loop L g vs count)"

definition tl_planarity_witness_vertex_count :: "'g graphLib \<Rightarrow> 'g session \<Rightarrow> int" where
  "tl_planarity_witness_vertex_count L s =
     (case g_graph s of
        None \<Rightarrow> 0
      | Some g \<Rightarrow>
          if g_lastEmbedResult s \<noteq> NONEMBEDDABLE L then 0
          else witness_vertex_count_loop L g [0..g_vertexCount s - 1] 0)"

fun write_witness_vertices_loop ::
  "'g graphLib \<Rightarrow> 'g \<Rightarrow> int list \<Rightarrow> int \<times> buffer \<Rightarrow> int \<times> buffer" where
  "write_witness_vertices_loop L g [] st = st"
| "write_witness_vertices_loop L g (v # vs) st =
     (if gp_VirtualVertexInUse L g v
      then write_witness_vertices_loop L g vs (fst st + 1, (snd st)(fst st := v))
      else write_witness_vertices_loop L g vs st)"

definition tl_planarity_write_witness_vertices :: "'g graphLib \<Rightarrow> 'g session \<Rightarrow> buffer \<Rightarrow> buffer" where
  "tl_planarity_write_witness_vertices L s out =
     (case g_graph s of
        None \<Rightarrow> out
      | Some g \<Rightarrow>
          if g_lastEmbedResult s \<noteq> NONEMBEDDABLE L then out
          else snd (write_witness_vertices_loop L g [0..g_vertexCount s - 1] (0, out)))"

definition k33Mask :: "'g graphLib \<Rightarrow> int" where
  "k33Mask L =
     MINORTYPE_A L OR MINORTYPE_B L OR MINORTYPE_C L OR MINORTYPE_D L OR
     MINORTYPE_E1 L OR MINORTYPE_E2 L OR MINORTYPE_E3 L OR MINORTYPE_E4 L"

definition tl_planarity_witness_type :: "'g graphLib \<Rightarrow> 'g session \<Rightarrow> int" where
  "tl_planarity_witness_type L s =
     (case g_graph s of
        None \<Rightarrow> 0
      | Some g \<Rightarrow>
          if g_lastEmbedResult s \<noteq> NONEMBEDDABLE L then 0
          else let minorType = IC_minorType L g in
            if minorType AND k33Mask L \<noteq> 0 then 33
            else if minorType AND MINORTYPE_E L \<noteq> 0 then 5
            else 0)"

text \<open>Code equations for the two walks, so that they evaluate on concrete graphs.\<close>

declare count_arcs.simps [code]
declare write_arcs.simps [code]

subsection \<open>Notions used to state the properties\<close>

text \<open>
  The buffer that holds the list \<open>xs\<close> from index \<open>c\<close> on, and the cells of
  \<open>out\<close> everywhere else: what a loop leaves behind that stores its values at a
  rising cursor.
\<close>

definition written :: "int \<Rightarrow> int list \<Rightarrow> buffer \<Rightarrow> buffer" where
  "written c xs out =
     (\<lambda>i. if c \<le> i \<and> i < c + int (length xs) then xs ! nat (i - c) else out i)"

text \<open>
  The vertex identifiers below \<open>n\<close> for which \<open>gp_VirtualVertexInUse\<close> holds, in
  rising order.
\<close>

definition virtual_vertices :: "'g graphLib \<Rightarrow> 'g \<Rightarrow> int \<Rightarrow> int list" where
  "virtual_vertices L g n = filter (gp_VirtualVertexInUse L g) [0..n - 1]"

text \<open>
  The arc map is allocated when the pointer is not null and its block has as many cells
  as the recorded size says. Every run that records an outcome other than 0 leaves the
  map allocated (lemma \<open>run_map_allocated\<close> below).
\<close>

definition map_allocated :: "'g session \<Rightarrow> bool" where
  "map_allocated s =
     (case g_edgeIdByArc s of
        None \<Rightarrow> False
      | Some tab \<Rightarrow> length tab = nat (g_edgeIdByArcSize s))"

text \<open>A list without its repetitions: every value stays at its first occurrence.\<close>

fun first_occurrences :: "int list \<Rightarrow> int list" where
  "first_occurrences [] = []"
| "first_occurrences (x # xs) = x # first_occurrences (removeAll x xs)"

text \<open>
  The edge identity mapped from an arc: the arc is in use and its map entry is an edge
  identity, a value in \<open>[0, g_edgeCount)\<close>.
\<close>

definition mapped_edge_id :: "'g graphLib \<Rightarrow> 'g session \<Rightarrow> 'g \<Rightarrow> int \<Rightarrow> int option" where
  "mapped_edge_id L s g arc =
     (if gp_EdgeInUse L g arc
      then (case edgeId_of_arc s arc of
              None \<Rightarrow> None
            | Some e \<Rightarrow> if 0 \<le> e \<and> e < g_edgeCount s then Some e else None)
      else None)"

definition mapped_edge_ids :: "'g graphLib \<Rightarrow> 'g session \<Rightarrow> 'g \<Rightarrow> int list \<Rightarrow> int list" where
  "mapped_edge_ids L s g arcs = List.map_filter (mapped_edge_id L s g) arcs"

text \<open>
  The distinct edge identities mapped from the in-use arcs, in the order in which the
  arc handles from \<open>gp_GetFirstEdge\<close> up to \<open>gp_EdgeInUseIndexBound\<close> first show
  them.
\<close>

definition witness_edge_ids :: "'g graphLib \<Rightarrow> 'g session \<Rightarrow> 'g \<Rightarrow> int list" where
  "witness_edge_ids L s g =
     first_occurrences
       (mapped_edge_ids L s g [gp_GetFirstEdge L g..gp_EdgeInUseIndexBound L g - 1])"

text \<open>
  The arcs of one walk as a list: \<open>arc_walk L g arc as\<close> holds when the walk that
  starts at \<open>arc\<close> and follows \<open>gp_GetNextArc\<close> visits exactly the arcs \<open>as\<close>, in
  this order, and then reaches a handle that is not an arc.
\<close>

fun arc_walk :: "'g graphLib \<Rightarrow> 'g \<Rightarrow> int \<Rightarrow> int list \<Rightarrow> bool" where
  "arc_walk L g arc [] = (\<not> gp_IsArc L arc)"
| "arc_walk L g arc (a # as) =
     (gp_IsArc L arc \<and> a = arc \<and> arc_walk L g (gp_GetNextArc L g arc) as)"

text \<open>The value the guarded read gives for an arc, as a plain integer.\<close>

definition arc_edge_id :: "'g session \<Rightarrow> int \<Rightarrow> int" where
  "arc_edge_id s arc = (case edgeId_of_arc s arc of None \<Rightarrow> -1 | Some e \<Rightarrow> e)"

text \<open>The guarded read on a map block of the given size: the entry of an arc, or \<open>-1\<close>.\<close>

definition map_entry :: "int \<Rightarrow> int list \<Rightarrow> int \<Rightarrow> int" where
  "map_entry mapSize tab arc = (if 0 \<le> arc \<and> arc < mapSize then tab ! nat arc else -1)"

text \<open>
  The unordered endpoint pair of the input edge \<open>e\<close> equals the endpoints of the arc:
  the test of the matching loop, with \<open>uArc\<close> the neighbor of the twin and \<open>vArc\<close>
  the neighbor of the arc.
\<close>

definition endpoints_match :: "'g graphLib \<Rightarrow> 'g \<Rightarrow> buffer \<Rightarrow> buffer \<Rightarrow> int \<Rightarrow> int \<Rightarrow> bool" where
  "endpoints_match L g u v arc e =
     ((u e = gp_GetNeighbor L g (gp_GetTwinArc L g arc) \<and> v e = gp_GetNeighbor L g arc) \<or>
      (u e = gp_GetNeighbor L g arc \<and> v e = gp_GetNeighbor L g (gp_GetTwinArc L g arc)))"

text \<open>
  Modelled from the spec: the arc encoding behind the macros \<open>gp_GetTwinArc\<close>,
  \<open>gp_GetFirstEdge\<close>, \<open>gp_EdgeInUseIndexBound\<close> and \<open>gp_EdgeIndexBound\<close> of
  graphLib.h, which is not part of the adapter's source. The spec's data model says that
  each edge corresponds to exactly two arcs, called twins: the twin of the twin of an arc
  is the arc itself. Twins lie both inside or both outside the map block, and every
  handle the matching loop visits has a cell in the map block.
\<close>

definition twin_pairing :: "'g graphLib \<Rightarrow> 'g \<Rightarrow> int \<Rightarrow> bool" where
  "twin_pairing L g mapSize =
     ((\<forall>a. gp_GetTwinArc L g (gp_GetTwinArc L g a) = a) \<and>
      (\<forall>a. (0 \<le> gp_GetTwinArc L g a \<and> gp_GetTwinArc L g a < mapSize) = (0 \<le> a \<and> a < mapSize)) \<and>
      0 \<le> gp_GetFirstEdge L g \<and> gp_EdgeInUseIndexBound L g \<le> mapSize)"

text \<open>
  The invariant of the outer matching loop once the arcs \<open>P\<close> have been visited, all
  of them below the arcs still to come. \<open>used\<close> is the scratch array and \<open>tab\<close> the
  map block.
\<close>

definition matching_inv ::
  "'g graphLib \<Rightarrow> 'g \<Rightarrow> int \<Rightarrow> buffer \<Rightarrow> buffer \<Rightarrow> int \<Rightarrow> int set \<Rightarrow> bool list \<times> int list \<Rightarrow> bool" where
  "matching_inv L g m u v mapSize P st =
     (case st of (used, tab) \<Rightarrow>
        length used = nat m \<and> length tab = nat mapSize \<and>
        (\<forall>a. - 1 \<le> map_entry mapSize tab a) \<and>
        (\<forall>a. map_entry mapSize tab (gp_GetTwinArc L g a) = map_entry mapSize tab a) \<and>
        (\<forall>a. 0 \<le> map_entry mapSize tab a \<longrightarrow>
             map_entry mapSize tab a < m \<and> used ! nat (map_entry mapSize tab a)) \<and>
        (\<forall>a b. 0 \<le> map_entry mapSize tab a \<and> map_entry mapSize tab b = map_entry mapSize tab a \<longrightarrow>
             b = a \<or> b = gp_GetTwinArc L g a) \<and>
        (\<forall>e. 0 \<le> e \<and> e < m \<and> used ! nat e \<longrightarrow> (\<exists>b \<in> P. map_entry mapSize tab b = e)) \<and>
        (\<forall>a. 0 \<le> map_entry mapSize tab a \<longrightarrow>
             min a (gp_GetTwinArc L g a) \<in> P \<and>
             endpoints_match L g u v a (map_entry mapSize tab a) \<and>
             (\<forall>e'. 0 \<le> e' \<and> e' < map_entry mapSize tab a \<and> endpoints_match L g u v a e' \<longrightarrow>
                   (\<exists>b. b < min a (gp_GetTwinArc L g a) \<and> map_entry mapSize tab b = e'))) \<and>
        (\<forall>c \<in> P. gp_EdgeInUse L g c \<and> c \<le> gp_GetTwinArc L g c \<and> map_entry mapSize tab c < 0 \<longrightarrow>
             (\<forall>e. 0 \<le> e \<and> e < m \<and> endpoints_match L g u v c e \<longrightarrow>
                  (\<exists>b. b < c \<and> map_entry mapSize tab b = e))))"

text \<open>
  The input adjacency of a vertex \<open>w\<close>: the other endpoint of every input edge at
  \<open>w\<close>, first of the edges that have \<open>w\<close> as first endpoint, then of those that have
  it as second.
\<close>

definition input_neighbors :: "int \<Rightarrow> buffer \<Rightarrow> buffer \<Rightarrow> int \<Rightarrow> int list" where
  "input_neighbors m u v w =
     map v (filter (\<lambda>i. u i = w) [0..m - 1]) @ map u (filter (\<lambda>i. v i = w) [0..m - 1])"

text \<open>
  Modelled from the spec: the adjacency lists that \<open>gp_AddEdge\<close>, \<open>gp_Embed\<close> and
  \<open>gp_SortVertices\<close> of the library leave in an embedded graph; the library is not
  part of the adapter's source. The spec says of a run that reaches
  success-with-embedding that, for every vertex, the neighbors listed in its rotation
  slice are exactly its graph neighbors, as a multiset equal to the input adjacency of
  the vertex. Here \<open>adj w\<close> are the arcs that the walk of vertex \<open>w\<close> visits.
\<close>

definition embeds_input ::
  "'g graphLib \<Rightarrow> 'g \<Rightarrow> int \<Rightarrow> int \<Rightarrow> buffer \<Rightarrow> buffer \<Rightarrow> (int \<Rightarrow> int list) \<Rightarrow> bool" where
  "embeds_input L g n m u v adj =
     (\<forall>w. 0 \<le> w \<and> w < n \<longrightarrow>
          arc_walk L g (gp_GetFirstArc L g w) (adj w) \<and>
          (\<forall>x. count_list (map (gp_GetNeighbor L g) (adj w)) x
                 = count_list (input_neighbors m u v w) x))"

subsection \<open>A sample instance of the library\<close>

text \<open>
  The theorems below hold for every library record. To apply them to concrete inputs
  this section gives one small instance. Its graph is the list of the edges inserted so
  far; edge \<open>k\<close> owns the arc handles \<open>2 * k\<close> (towards its second endpoint) and
  \<open>2 * k + 1\<close> (towards its first), so twins differ in the lowest bit; the arcs of a
  vertex are visited in rising handle order and \<open>-1\<close> ends the walk. Its embedding
  step is a stand-in that is right where it answers: it accepts a graph with fewer than
  nine edges, which is always planar, rejects the complete graph on five vertices with
  the minor type E, and gives up with NOTOK on any other graph.
\<close>

record sample_graph =
  sg_N :: int
  sg_arcCapacity :: int
  sg_edges :: "(int \<times> int) list"
  sg_minorType :: int

definition sample_is_k5 :: "sample_graph \<Rightarrow> bool" where
  "sample_is_k5 g =
     (sg_N g = 5 \<and> length (sg_edges g) = 10 \<and>
      distinct (map (\<lambda>(x, y). (min x y, max x y)) (sg_edges g)) \<and>
      list_all (\<lambda>(x, y). x \<noteq> y) (sg_edges g))"

definition sample_source :: "sample_graph \<Rightarrow> int \<Rightarrow> int" where
  "sample_source g a =
     (case sg_edges g ! nat (a div 2) of (x, y) \<Rightarrow> if even a then x else y)"

definition sample_neighbor :: "sample_graph \<Rightarrow> int \<Rightarrow> int" where
  "sample_neighbor g a =
     (case sg_edges g ! nat (a div 2) of (x, y) \<Rightarrow> if even a then y else x)"

definition sample_bound :: "sample_graph \<Rightarrow> int" where
  "sample_bound g = 2 * int (length (sg_edges g))"

definition sample_arc_from :: "sample_graph \<Rightarrow> int \<Rightarrow> int \<Rightarrow> int" where
  "sample_arc_from g v a =
     (case find (\<lambda>b. sample_source g b = v) [a..sample_bound g - 1] of
        None \<Rightarrow> -1 | Some b \<Rightarrow> b)"

definition sampleLib :: "sample_graph graphLib" where
  "sampleLib =
     \<lparr>OK = 1, NOTOK = 0, NONEMBEDDABLE = -1,
      MINORTYPE_A = 1, MINORTYPE_B = 2, MINORTYPE_C = 4, MINORTYPE_D = 8,
      MINORTYPE_E = 16, MINORTYPE_E1 = 32, MINORTYPE_E2 = 64, MINORTYPE_E3 = 128,
      MINORTYPE_E4 = 256,
      gp_New = Some \<lparr>sg_N = 0, sg_arcCapacity = 0, sg_edges = [], sg_minorType = 0\<rparr>,
      gp_EnsureArcCapacity = (\<lambda>g k. (1, g\<lparr>sg_arcCapacity := k\<rparr>)),
      gp_InitGraph = (\<lambda>g n. (1, g\<lparr>sg_N := n\<rparr>)),
      gp_AddEdge = (\<lambda>g x xlink y ylink.
         if 0 \<le> x \<and> x < sg_N g \<and> 0 \<le> y \<and> y < sg_N g
         then (1, g\<lparr>sg_edges := sg_edges g @ [(x, y)]\<rparr>) else (0, g)),
      gp_Embed = (\<lambda>g flags.
         if length (sg_edges g) < 9 then (1, g)
         else if sample_is_k5 g then (-1, g\<lparr>sg_minorType := 16\<rparr>)
         else (0, g)),
      gp_SortVertices = (\<lambda>g. g),
      gp_EdgeIndexBound = sg_arcCapacity,
      gp_EdgeInUseIndexBound = sample_bound,
      gp_GetFirstEdge = (\<lambda>g. 0),
      gp_EdgeInUse = (\<lambda>g a. 0 \<le> a \<and> a < sample_bound g),
      gp_GetTwinArc = (\<lambda>g a. if even a then a + 1 else a - 1),
      gp_GetNeighbor = sample_neighbor,
      gp_GetFirstArc = (\<lambda>g v. sample_arc_from g v 0),
      gp_GetNextArc = (\<lambda>g a. sample_arc_from g (sample_source g a) (a + 1)),
      gp_IsArc = (\<lambda>a. a \<noteq> -1),
      gp_VirtualVertexInUse = (\<lambda>g v. sample_arc_from g v 0 \<noteq> -1),
      IC_minorType = sg_minorType\<rparr>"

text \<open>The triangle on the vertices 0, 1, 2 with the edges (0,1), (1,2), (2,0).\<close>

definition triangle_u :: buffer where
  "triangle_u = (\<lambda>i. if i = 0 then 0 else if i = 1 then 1 else 2)"

definition triangle_v :: buffer where
  "triangle_v = (\<lambda>i. if i = 0 then 1 else if i = 1 then 2 else 0)"

definition triangle_session :: "sample_graph session" where
  "triangle_session =
     snd (tl_planarity_run sampleLib True True initial_session 3 3 triangle_u triangle_v 1)"

text \<open>The graph this run leaves in the session, and the arcs of its three vertices.\<close>

definition triangle_graph :: sample_graph where
  "triangle_graph =
     \<lparr>sg_N = 3, sg_arcCapacity = 18, sg_edges = [(0,1), (1,2), (2,0)], sg_minorType = 0\<rparr>"

definition triangle_adj :: "int \<Rightarrow> int list" where
  "triangle_adj = (\<lambda>v. if v = 0 then [0, 5] else if v = 1 then [1, 2] else [3, 4])"

text \<open>A run on two vertices whose only edge names the vertex 5: the insertion fails.\<close>

definition failed_session :: "sample_graph session" where
  "failed_session =
     snd (tl_planarity_run sampleLib True True initial_session 2 1 (\<lambda>i. 0) (\<lambda>i. 5) 1)"

text \<open>
  The complete graph on five vertices, its ten edges in lexicographic order, the run on
  it, and the graph this run leaves in the session.
\<close>

definition k5_u :: buffer where
  "k5_u = (\<lambda>i. if 0 \<le> i \<and> i < 10 then [0, 0, 0, 0, 1, 1, 1, 2, 2, 3] ! nat i else 0)"

definition k5_v :: buffer where
  "k5_v = (\<lambda>i. if 0 \<le> i \<and> i < 10 then [1, 2, 3, 4, 2, 3, 4, 3, 4, 4] ! nat i else 0)"

definition k5_session :: "sample_graph session" where
  "k5_session = snd (tl_planarity_run sampleLib True True initial_session 5 10 k5_u k5_v 1)"

definition k5_graph :: sample_graph where
  "k5_graph =
     \<lparr>sg_N = 5, sg_arcCapacity = 30,
      sg_edges = [(0,1), (0,2), (0,3), (0,4), (1,2), (1,3), (1,4), (2,3), (2,4), (3,4)],
      sg_minorType = 16\<rparr>"

text \<open>Output buffers whose cells all hold 0 before a call.\<close>

definition zero_buffer :: buffer where
  "zero_buffer = (\<lambda>i. 0)"

definition zero_out :: rotation_out where
  "zero_out = \<lparr>offsets = zero_buffer, edgeIds = zero_buffer, neighbors = zero_buffer\<rparr>"

section \<open>Properties\<close>

subsection \<open>The sample sessions\<close>

lemma k5_session_state:
  "g_graph k5_session = Some k5_graph"
  "g_lastEmbedResult k5_session = NONEMBEDDABLE sampleLib"
  "g_vertexCount k5_session = 5"
  "g_edgeCount k5_session = 10"
  "g_edgeIdByArcSize k5_session = 30"
  "map_allocated k5_session"
  by code_simp+

subsection \<open>Clearing and freeing\<close>

lemma clear_state_initial: "tl_clear_state s = initial_session"
  by (simp add: tl_clear_state_def initial_session_def Let_def)

text \<open>
  Claim C9. Freeing is idempotent and safe in every session state: the model of
  \<open>tl_planarity_free\<close> has no error branch, a second call changes nothing, a call
  without a prior run leaves the never-used session as it is, and after a call from any
  state the session is that same cleared session.
\<close>

theorem free_idempotent:
  "tl_planarity_free (tl_planarity_free s) = tl_planarity_free (s :: 'g session) \<and>
   tl_planarity_free (initial_session :: 'g session) = initial_session \<and>
   tl_planarity_free s = initial_session"
  by (simp add: tl_planarity_free_def tl_clear_state_def initial_session_def Let_def)

theorem free_idempotent_witness:
  "tl_planarity_free (tl_planarity_free triangle_session) = initial_session \<and>
   tl_planarity_free triangle_session = initial_session \<and>
   g_graph triangle_session \<noteq> None"
proof -
  have "g_graph triangle_session \<noteq> None"
    unfolding triangle_session_def by code_simp
  then show ?thesis
    using free_idempotent [of triangle_session] by simp
qed

subsection \<open>The gate on extraction\<close>

lemma run_last_outcome_aux:
  "(case tl_planarity_run L mallocOk callocOk s0 n m u v embedFlags of
      (r, s) \<Rightarrow> g_lastEmbedResult s = r \<or> g_lastEmbedResult s = 0)"
  by (simp add: tl_planarity_run_def clear_state_initial initial_session_def Let_def
        split: option.split prod.split bool.split)

lemma run_last_outcome:
  "tl_planarity_run L mallocOk callocOk s0 n m u v embedFlags = (r, s) \<Longrightarrow>
     g_lastEmbedResult s = r \<or> g_lastEmbedResult s = 0"
  using run_last_outcome_aux [where L = L and mallocOk = mallocOk and callocOk = callocOk
      and ?s0.0 = s0 and n = n and m = m and u = u and v = v and embedFlags = embedFlags]
  by simp

text \<open>
  Claim C1. Every extraction operation is gated on the last outcome. In every session
  state in which no graph is held (no run has occurred, or the session was freed) or
  the last outcome is not OK, the rotation size is 0 and writing the rotation leaves
  the buffers as they are. In every state in which no graph is held or the last outcome
  is not NONEMBEDDABLE, the witness edge count, vertex count and type are 0 and the two
  witness writers leave the buffer as it is. Each call returns; none fails. The
  never-used session holds no graph. The outcome a run records is the status it returns
  or the cleared value 0, so after a run that returns a status other than OK (other than
  NONEMBEDDABLE) the recorded outcome is not OK (not NONEMBEDDABLE) either, these two
  codes being different from 0.
\<close>

theorem extraction_gated:
  "(g_graph s = None \<or> g_lastEmbedResult s \<noteq> OK (L :: 'g graphLib) \<longrightarrow>
      tl_planarity_rotation_size L s = Some 0 \<and>
      tl_planarity_write_rotation L s out = Some out) \<and>
   (g_graph s = None \<or> g_lastEmbedResult s \<noteq> NONEMBEDDABLE L \<longrightarrow>
      tl_planarity_witness_edge_count L callocOk s = Some 0 \<and>
      tl_planarity_witness_vertex_count L s = 0 \<and>
      tl_planarity_witness_type L s = 0 \<and>
      tl_planarity_write_witness_edges L callocOk s buf = Some buf \<and>
      tl_planarity_write_witness_vertices L s buf = buf) \<and>
   g_graph (initial_session :: 'g session) = None \<and>
   (tl_planarity_run L mallocOk callocOk' s0 n m u v embedFlags = (r, s) \<and>
      r \<noteq> OK L \<and> OK L \<noteq> 0 \<longrightarrow> g_lastEmbedResult s \<noteq> OK L) \<and>
   (tl_planarity_run L mallocOk callocOk' s0 n m u v embedFlags = (r, s) \<and>
      r \<noteq> NONEMBEDDABLE L \<and> NONEMBEDDABLE L \<noteq> 0 \<longrightarrow>
        g_lastEmbedResult s \<noteq> NONEMBEDDABLE L)"
proof -
  have "tl_planarity_rotation_size L s = Some 0 \<and>
        tl_planarity_write_rotation L s out = Some out"
    if "g_graph s = None \<or> g_lastEmbedResult s \<noteq> OK L"
    using that
    by (auto simp: tl_planarity_rotation_size_def tl_planarity_write_rotation_def
          split: option.splits)
  moreover have "tl_planarity_witness_edge_count L callocOk s = Some 0 \<and>
      tl_planarity_witness_vertex_count L s = 0 \<and>
      tl_planarity_witness_type L s = 0 \<and>
      tl_planarity_write_witness_edges L callocOk s buf = Some buf \<and>
      tl_planarity_write_witness_vertices L s buf = buf"
    if "g_graph s = None \<or> g_lastEmbedResult s \<noteq> NONEMBEDDABLE L"
    using that
    by (auto simp: tl_planarity_witness_edge_count_def tl_planarity_witness_vertex_count_def
          tl_planarity_witness_type_def tl_planarity_write_witness_edges_def
          tl_planarity_write_witness_vertices_def
        split: option.splits)
  moreover have "g_graph (initial_session :: 'g session) = None"
    by (simp add: initial_session_def)
  moreover have "g_lastEmbedResult s \<noteq> c"
    if "tl_planarity_run L mallocOk callocOk' s0 n m u v embedFlags = (r, s)" "r \<noteq> c" "c \<noteq> 0"
    for c
    using run_last_outcome [OF that(1)] that(2,3) by auto
  ultimately show ?thesis
    by blast
qed

theorem extraction_gated_witness:
  "tl_planarity_run sampleLib True True initial_session 2 1 (\<lambda>i. 0) (\<lambda>i. 5) 1
     = (NOTOK sampleLib, failed_session) \<and>
   g_graph failed_session \<noteq> None \<and>
   g_lastEmbedResult failed_session \<noteq> OK sampleLib \<and>
   g_lastEmbedResult failed_session \<noteq> NONEMBEDDABLE sampleLib \<and>
   tl_planarity_rotation_size sampleLib failed_session = Some 0 \<and>
   tl_planarity_write_rotation sampleLib failed_session zero_out = Some zero_out \<and>
   tl_planarity_witness_edge_count sampleLib True failed_session = Some 0 \<and>
   tl_planarity_witness_vertex_count sampleLib failed_session = 0 \<and>
   tl_planarity_witness_type sampleLib failed_session = 0 \<and>
   tl_planarity_write_witness_edges sampleLib True failed_session zero_buffer = Some zero_buffer \<and>
   tl_planarity_write_witness_vertices sampleLib failed_session zero_buffer = zero_buffer"
proof -
  have g: "g_graph failed_session \<noteq> None"
    unfolding failed_session_def by code_simp
  have run: "tl_planarity_run sampleLib True True initial_session 2 1 (\<lambda>i. 0) (\<lambda>i. 5) 1
               = (NOTOK sampleLib, failed_session)"
  proof -
    have "fst (tl_planarity_run sampleLib True True initial_session 2 1 (\<lambda>i. 0) (\<lambda>i. 5) 1)
            = NOTOK sampleLib"
      by code_simp
    then show ?thesis
      unfolding failed_session_def by (metis prod.collapse)
  qed
  have codes: "NOTOK sampleLib \<noteq> OK sampleLib" "OK sampleLib \<noteq> 0"
    "NOTOK sampleLib \<noteq> NONEMBEDDABLE sampleLib" "NONEMBEDDABLE sampleLib \<noteq> 0"
    by (simp_all add: sampleLib_def)
  note gate = extraction_gated [of failed_session sampleLib zero_out True zero_buffer
      True True initial_session 2 1 "\<lambda>i. 0" "\<lambda>i. 5" 1 "NOTOK sampleLib"]
  have r: "g_lastEmbedResult failed_session \<noteq> OK sampleLib"
    and w: "g_lastEmbedResult failed_session \<noteq> NONEMBEDDABLE sampleLib"
    using gate run codes by blast+
  show ?thesis
    using gate g r w run by blast
qed

subsection \<open>The witness type\<close>

lemma int_and_or_zero: "(x AND (a OR b) = 0) = (x AND a = 0 \<and> x AND b = (0::int))"
  by (simp add: bit.conj_disj_distrib or_eq_0_iff)

lemma k33_any_bit:
  "(x AND k33Mask L \<noteq> 0) =
     (\<exists>b \<in> {MINORTYPE_A L, MINORTYPE_B L, MINORTYPE_C L, MINORTYPE_D L,
             MINORTYPE_E1 L, MINORTYPE_E2 L, MINORTYPE_E3 L, MINORTYPE_E4 L}. x AND b \<noteq> 0)"
  by (simp add: k33Mask_def int_and_or_zero)

text \<open>
  Claim C5. The witness type is always one of 0, 5 and 33. When a graph is held and the
  last outcome is NONEMBEDDABLE it is 33 if the minor-type bitmask has a bit in common
  with one of the eight K3,3 minor types A, B, C, D, E1, E2, E3, E4, otherwise 5 if it has
  a bit in common with the minor type E, otherwise 0; in every other state it is 0.
\<close>

theorem witness_type_classification:
  "tl_planarity_witness_type L s \<in> {0, 5, 33} \<and>
   tl_planarity_witness_type L s =
     (case g_graph s of
        None \<Rightarrow> 0
      | Some g \<Rightarrow>
          if g_lastEmbedResult s = NONEMBEDDABLE L
          then if \<exists>b \<in> {MINORTYPE_A L, MINORTYPE_B L, MINORTYPE_C L, MINORTYPE_D L,
                         MINORTYPE_E1 L, MINORTYPE_E2 L, MINORTYPE_E3 L, MINORTYPE_E4 L}.
                    IC_minorType L g AND b \<noteq> 0
               then 33
               else if IC_minorType L g AND MINORTYPE_E L \<noteq> 0 then 5 else 0
          else 0)"
proof (cases "g_graph s")
  case None
  then show ?thesis by (simp add: tl_planarity_witness_type_def)
next
  case (Some g)
  have k: "(IC_minorType L g AND k33Mask L = 0) =
           (\<not> (\<exists>b \<in> {MINORTYPE_A L, MINORTYPE_B L, MINORTYPE_C L, MINORTYPE_D L,
                      MINORTYPE_E1 L, MINORTYPE_E2 L, MINORTYPE_E3 L, MINORTYPE_E4 L}.
                  IC_minorType L g AND b \<noteq> 0))"
    using k33_any_bit [of "IC_minorType L g" L] by blast
  show ?thesis
    unfolding tl_planarity_witness_type_def Some option.case Let_def
    by (simp only: k) simp
qed

theorem witness_type_classification_witness:
  "tl_planarity_witness_type sampleLib k5_session = 5 \<and>
   tl_planarity_witness_type sampleLib
     (k5_session\<lparr>g_graph := Some (k5_graph\<lparr>sg_minorType := 17\<rparr>)\<rparr>) = 33 \<and>
   tl_planarity_witness_type sampleLib triangle_session = 0"
proof -
  have t: "g_graph triangle_session \<noteq> None \<and>
           g_lastEmbedResult triangle_session \<noteq> NONEMBEDDABLE sampleLib"
    unfolding triangle_session_def by code_simp
  show ?thesis
    using witness_type_classification [of sampleLib k5_session]
      witness_type_classification [of sampleLib
        "k5_session\<lparr>g_graph := Some (k5_graph\<lparr>sg_minorType := 17\<rparr>)\<rparr>"]
      witness_type_classification [of sampleLib triangle_session] t k5_session_state(1,2)
    by (auto simp: k5_graph_def sampleLib_def)
qed

subsection \<open>What a failed run leaves behind\<close>

lemma run_invalid_input:
  "n \<le> 0 \<or> m < 0 \<Longrightarrow>
     tl_planarity_run L mallocOk callocOk s0 n m u v embedFlags = (NOTOK L, initial_session)"
  by (auto simp: tl_planarity_run_def clear_state_initial)

lemma run_keeps_counts_aux:
  "(case tl_planarity_run L mallocOk callocOk s0 n m u v embedFlags of
      (r, s') \<Rightarrow> 0 < n \<and> 0 \<le> m \<longrightarrow>
        g_vertexCount s' = n \<and> g_edgeCount s' = m \<and> (g_graph s' = None \<longleftrightarrow> gp_New L = None))"
  by (simp add: tl_planarity_run_def clear_state_initial initial_session_def Let_def
        split: option.split prod.split bool.split)

lemma run_keeps_counts:
  assumes "0 < n" "0 \<le> m"
  shows "g_vertexCount (snd (tl_planarity_run L mallocOk callocOk s0 n m u v embedFlags)) = n \<and>
         g_edgeCount (snd (tl_planarity_run L mallocOk callocOk s0 n m u v embedFlags)) = m \<and>
         (g_graph (snd (tl_planarity_run L mallocOk callocOk s0 n m u v embedFlags)) = None
            \<longleftrightarrow> gp_New L = None)"
  using assms
    run_keeps_counts_aux [where L = L and mallocOk = mallocOk and callocOk = callocOk
      and ?s0.0 = s0 and n = n and m = m and u = u and v = v and embedFlags = embedFlags]
  by (cases "tl_planarity_run L mallocOk callocOk s0 n m u v embedFlags") simp

text \<open>
  Claim C2, as stated, fails: a run whose edge insertion fails returns the failure
  status and leaves the graph, the arc map and both counts in the session.
\<close>

theorem run_failure_not_cleared:
  "fst (tl_planarity_run sampleLib True True initial_session 2 1 (\<lambda>i. 0) (\<lambda>i. 5) 1)
     = NOTOK sampleLib \<and>
   failed_session \<noteq> initial_session \<and>
   g_graph failed_session \<noteq> None \<and> g_edgeIdByArc failed_session \<noteq> None \<and>
   g_edgeIdByArcSize failed_session = 12 \<and>
   g_vertexCount failed_session = 2 \<and> g_edgeCount failed_session = 1"
  unfolding failed_session_def by code_simp

text \<open>
  Claim C2, amended. A run with \<open>n \<le> 0\<close> or \<open>m < 0\<close> returns the failure status
  and leaves the session fully cleared. A run with \<open>n \<ge> 1\<close> and \<open>m \<ge> 0\<close>, whatever
  status it returns, leaves the counts \<open>n\<close> and \<open>m\<close> in the session, and the graph
  object unless its creation failed: no later failure clears the session.
\<close>

theorem run_failure_state:
  "(n \<le> 0 \<or> m < 0 \<longrightarrow>
      tl_planarity_run L mallocOk callocOk s0 n m u v embedFlags = (NOTOK L, initial_session)) \<and>
   (0 < n \<and> 0 \<le> m \<longrightarrow>
      g_vertexCount (snd (tl_planarity_run L mallocOk callocOk s0 n m u v embedFlags)) = n \<and>
      g_edgeCount (snd (tl_planarity_run L mallocOk callocOk s0 n m u v embedFlags)) = m \<and>
      (g_graph (snd (tl_planarity_run L mallocOk callocOk s0 n m u v embedFlags)) = None
         \<longleftrightarrow> gp_New L = None) \<and>
      snd (tl_planarity_run L mallocOk callocOk s0 n m u v embedFlags) \<noteq> initial_session)"
proof -
  have "snd (tl_planarity_run L mallocOk callocOk s0 n m u v embedFlags) \<noteq> initial_session"
    if "0 < n" "0 \<le> m"
  proof
    assume "snd (tl_planarity_run L mallocOk callocOk s0 n m u v embedFlags) = initial_session"
    then have "g_vertexCount (snd (tl_planarity_run L mallocOk callocOk s0 n m u v embedFlags)) = 0"
      by (simp add: initial_session_def)
    with run_keeps_counts [OF that, of L mallocOk callocOk s0 u v embedFlags] that show False
      by simp
  qed
  then show ?thesis
    using run_invalid_input [of n m L mallocOk callocOk s0 u v embedFlags]
      run_keeps_counts [of n m L mallocOk callocOk s0 u v embedFlags]
    by blast
qed

theorem run_failure_state_witness:
  "tl_planarity_run sampleLib True True triangle_session 0 3 triangle_u triangle_v 1
     = (0, initial_session) \<and>
   g_vertexCount failed_session = 2 \<and> g_edgeCount failed_session = 1 \<and>
   g_graph failed_session \<noteq> None \<and> failed_session \<noteq> initial_session"
proof -
  have new: "gp_New sampleLib \<noteq> None" and notok: "NOTOK sampleLib = 0"
    by (simp_all add: sampleLib_def)
  show ?thesis
    using run_failure_state [of 0 3 sampleLib True True triangle_session triangle_u triangle_v 1]
      run_failure_state [of 2 1 sampleLib True True initial_session "\<lambda>i. 0" "\<lambda>i. 5" 1]
      new notok
    by (simp add: failed_session_def)
qed

subsection \<open>Witness vertices\<close>

lemma written_Nil: "written c [] out = out"
  by (auto simp: written_def fun_eq_iff)

lemma written_Cons: "written c (x # xs) out = written (c + 1) xs (out(c := x))"
proof -
  have "nat (i - c) = Suc (nat (i - (c + 1)))" if "c < i" for i
    using that by simp
  then show ?thesis
    by (auto simp: written_def fun_eq_iff)
qed

lemma written_append:
  "written c (xs @ ys) out = written (c + int (length xs)) ys (written c xs out)"
  by (induction xs arbitrary: c out) (simp_all add: written_Nil written_Cons add.assoc)

lemma witness_vertex_count_loop_eq:
  "witness_vertex_count_loop L g vs c = c + int (length (filter (gp_VirtualVertexInUse L g) vs))"
  by (induction vs arbitrary: c) auto

lemma write_witness_vertices_loop_eq:
  "write_witness_vertices_loop L g vs (c, out) =
     (c + int (length (filter (gp_VirtualVertexInUse L g) vs)),
      written c (filter (gp_VirtualVertexInUse L g) vs) out)"
  by (induction vs arbitrary: c out) (simp_all add: written_Nil written_Cons)

lemma virtual_vertices_ascending:
  "sorted (virtual_vertices L g n) \<and> distinct (virtual_vertices L g n) \<and>
   set (virtual_vertices L g n) = {v. 0 \<le> v \<and> v < n \<and> gp_VirtualVertexInUse L g v}"
  by (auto simp: virtual_vertices_def sorted_filter[where f="\<lambda>x. x", simplified])

text \<open>
  Claim C8. When a graph is held and the last outcome is NONEMBEDDABLE, the vertex
  writer stores, from index 0 on and in ascending order, every vertex identifier in
  \<open>[0, g_vertexCount)\<close> for which the library's test \<open>gp_VirtualVertexInUse\<close>
  holds, each once, and changes no other cell; the vertex count is the number of these
  vertices.
\<close>

theorem witness_vertices_emitted:
  assumes "g_graph s = Some g" and "g_lastEmbedResult s = NONEMBEDDABLE L"
  shows "tl_planarity_witness_vertex_count L s
           = int (length (virtual_vertices L g (g_vertexCount s))) \<and>
         tl_planarity_write_witness_vertices L s out
           = written 0 (virtual_vertices L g (g_vertexCount s)) out \<and>
         sorted (virtual_vertices L g (g_vertexCount s)) \<and>
         distinct (virtual_vertices L g (g_vertexCount s)) \<and>
         set (virtual_vertices L g (g_vertexCount s))
           = {v. 0 \<le> v \<and> v < g_vertexCount s \<and> gp_VirtualVertexInUse L g v}"
  using assms virtual_vertices_ascending [of L g "g_vertexCount s"]
  by (simp add: tl_planarity_witness_vertex_count_def tl_planarity_write_witness_vertices_def
        witness_vertex_count_loop_eq write_witness_vertices_loop_eq virtual_vertices_def)

theorem witness_vertices_emitted_witness:
  "tl_planarity_witness_vertex_count sampleLib k5_session = 5 \<and>
   tl_planarity_write_witness_vertices sampleLib k5_session zero_buffer
     = written 0 [0, 1, 2, 3, 4] zero_buffer"
proof -
  have vs: "virtual_vertices sampleLib k5_graph 5 = [0, 1, 2, 3, 4]"
    by code_simp
  have g: "g_graph k5_session = Some k5_graph"
    and r: "g_lastEmbedResult k5_session = NONEMBEDDABLE sampleLib"
    and n: "g_vertexCount k5_session = 5"
    by (rule k5_session_state)+
  show ?thesis
    using witness_vertices_emitted [OF g r, of zero_buffer] vs n by simp
qed

subsection \<open>The arc map stays allocated\<close>

lemma store_edgeId_length: "length (store_edgeId mapSize arc match tab) = length tab"
  by (simp add: store_edgeId_def)

lemma find_match_length:
  "length (snd (find_match u v uArc vArc edgeUsed es)) = length edgeUsed"
  by (induction es) auto

lemma match_arc_length:
  "length (snd (match_arc L g m u v mapSize arc st)) = length (snd st)"
  by (auto simp: match_arc_def Let_def store_edgeId_length split: prod.splits)

lemma match_arcs_length:
  "length (snd (match_arcs L g m u v mapSize arcs st)) = length (snd st)"
  by (induction arcs arbitrary: st) (simp_all add: match_arc_length)

lemma build_arc_map_length:
  "length (build_arc_map L g m u v mapSize tab) = length tab"
  by (simp add: build_arc_map_def Let_def match_arcs_length)

lemma run_map_allocated_aux:
  "(case tl_planarity_run L mallocOk callocOk s0 n m u v embedFlags of
      (r, s') \<Rightarrow> g_lastEmbedResult s' \<noteq> 0 \<longrightarrow> map_allocated s' \<and> g_graph s' \<noteq> None)"
  by (simp add: tl_planarity_run_def clear_state_initial initial_session_def Let_def
        map_allocated_def build_arc_map_length
      split: option.split prod.split bool.split)

lemma run_map_allocated:
  assumes "g_lastEmbedResult (snd (tl_planarity_run L mallocOk callocOk s0 n m u v embedFlags)) \<noteq> 0"
  shows "map_allocated (snd (tl_planarity_run L mallocOk callocOk s0 n m u v embedFlags)) \<and>
         g_graph (snd (tl_planarity_run L mallocOk callocOk s0 n m u v embedFlags)) \<noteq> None"
  using assms run_map_allocated_aux [of L mallocOk callocOk s0 n m u v embedFlags]
  by (cases "tl_planarity_run L mallocOk callocOk s0 n m u v embedFlags") simp

subsection \<open>Witness edges\<close>

lemma edgeId_of_arc_outside:
  "arc < 0 \<or> g_edgeIdByArcSize s \<le> arc \<Longrightarrow> edgeId_of_arc s arc = Some (-1)"
  by (auto simp: edgeId_of_arc_def)

lemma edgeId_of_arc_total:
  "map_allocated s \<Longrightarrow> \<exists>e. edgeId_of_arc s arc = Some e"
  by (auto simp: edgeId_of_arc_def map_allocated_def split: option.splits)

lemma first_occurrences_set: "set (first_occurrences xs) = set xs"
  by (induction xs rule: first_occurrences.induct) auto

lemma first_occurrences_distinct: "distinct (first_occurrences xs)"
  by (induction xs rule: first_occurrences.induct) (auto simp: first_occurrences_set)

lemma mapped_edge_ids_Nil: "mapped_edge_ids L s g [] = []"
  by (simp add: mapped_edge_ids_def)

lemma mapped_edge_ids_Cons:
  "mapped_edge_ids L s g (arc # arcs) =
     (case mapped_edge_id L s g arc of
        None \<Rightarrow> mapped_edge_ids L s g arcs
      | Some e \<Rightarrow> e # mapped_edge_ids L s g arcs)"
  by (simp add: mapped_edge_ids_def split: option.splits)

lemma mapped_edge_ids_range:
  "e \<in> set (mapped_edge_ids L s g arcs) \<Longrightarrow> 0 \<le> e \<and> e < g_edgeCount s"
  by (induction arcs)
     (auto simp: mapped_edge_ids_Nil mapped_edge_ids_Cons mapped_edge_id_def
           split: option.splits if_splits)

lemma unseen_after_mark:
  assumes "\<forall>x \<in> set xs. 0 \<le> x" and "0 \<le> e" and "nat e < length seen"
  shows "filter (\<lambda>x. \<not> seen[nat e := True] ! nat x) xs
           = removeAll e (filter (\<lambda>x. \<not> seen ! nat x) xs)"
proof -
  have "(\<not> seen[nat e := True] ! nat x) = (e \<noteq> x \<and> \<not> seen ! nat x)" if "x \<in> set xs" for x
  proof -
    from that assms have "0 \<le> x" by blast
    then have "(nat x = nat e) = (x = e)" using assms(2) by auto
    then show ?thesis
      using assms(3) by (auto simp: nth_list_update)
  qed
  then have "filter (\<lambda>x. \<not> seen[nat e := True] ! nat x) xs
               = filter (\<lambda>x. e \<noteq> x \<and> \<not> seen ! nat x) xs"
    by (intro filter_cong) auto
  also have "\<dots> = removeAll e (filter (\<lambda>x. \<not> seen ! nat x) xs)"
    by (simp add: removeAll_filter_not_eq conj_commute)
  finally show ?thesis .
qed

lemma write_witness_edges_loop_eq:
  assumes "map_allocated s" and "length seen = nat (g_edgeCount s)"
  shows "\<exists>seen'. write_witness_edges_loop L s g arcs (seen, c, out) =
           Some (seen',
                 c + int (length (first_occurrences
                           (filter (\<lambda>x. \<not> seen ! nat x) (mapped_edge_ids L s g arcs)))),
                 written c (first_occurrences
                           (filter (\<lambda>x. \<not> seen ! nat x) (mapped_edge_ids L s g arcs))) out)"
  using assms(2)
proof (induction arcs arbitrary: seen c out)
  case Nil
  then show ?case by (simp add: mapped_edge_ids_Nil written_Nil)
next
  case (Cons arc arcs)
  obtain e where e: "edgeId_of_arc s arc = Some e"
    using edgeId_of_arc_total [OF assms(1)] by blast
  show ?case
  proof (cases "gp_EdgeInUse L g arc \<and> 0 \<le> e \<and> e < g_edgeCount s")
    case False
    then have "mapped_edge_id L s g arc = None"
      using e by (auto simp: mapped_edge_id_def)
    then show ?thesis
      using False e Cons.IH [OF Cons.prems, of c out]
      by (auto simp: mapped_edge_ids_Cons)
  next
    case True
    then have m: "mapped_edge_id L s g arc = Some e"
      using e by (simp add: mapped_edge_id_def)
    show ?thesis
    proof (cases "seen ! nat e")
      case True
      then show ?thesis
        using \<open>gp_EdgeInUse L g arc \<and> 0 \<le> e \<and> e < g_edgeCount s\<close> e m
          Cons.IH [OF Cons.prems, of c out]
        by (simp add: mapped_edge_ids_Cons)
    next
      case False
      have len: "length (seen[nat e := True]) = nat (g_edgeCount s)"
        using Cons.prems by simp
      have ne: "nat e < length seen"
        using True Cons.prems by auto
      have nonneg: "\<forall>x \<in> set (mapped_edge_ids L s g arcs). 0 \<le> x"
        using mapped_edge_ids_range [of _ L s g arcs] by blast
      have f: "filter (\<lambda>x. \<not> seen[nat e := True] ! nat x) (mapped_edge_ids L s g arcs)
                 = removeAll e (filter (\<lambda>x. \<not> seen ! nat x) (mapped_edge_ids L s g arcs))"
        using unseen_after_mark [OF nonneg _ ne] True by simp
      obtain seen' where IH:
        "write_witness_edges_loop L s g arcs (seen[nat e := True], c + 1, out(c := e)) =
           Some (seen',
                 c + 1 + int (length (first_occurrences (removeAll e
                           (filter (\<lambda>x. \<not> seen ! nat x) (mapped_edge_ids L s g arcs))))),
                 written (c + 1) (first_occurrences (removeAll e
                           (filter (\<lambda>x. \<not> seen ! nat x) (mapped_edge_ids L s g arcs))))
                   (out(c := e)))"
        using Cons.IH [OF len, of "c + 1" "out(c := e)"] unfolding f by blast
      show ?thesis
        using True False e m
        by (simp add: mapped_edge_ids_Cons written_Cons IH)
    qed
  qed
qed

lemma witness_edge_count_loop_eq:
  assumes "map_allocated s" and "length seen = nat (g_edgeCount s)"
  shows "\<exists>seen'. witness_edge_count_loop L s g arcs (seen, c) =
           Some (seen',
                 c + int (length (first_occurrences
                           (filter (\<lambda>x. \<not> seen ! nat x) (mapped_edge_ids L s g arcs)))))"
  using assms(2)
proof (induction arcs arbitrary: seen c)
  case Nil
  then show ?case by (simp add: mapped_edge_ids_Nil)
next
  case (Cons arc arcs)
  obtain e where e: "edgeId_of_arc s arc = Some e"
    using edgeId_of_arc_total [OF assms(1)] by blast
  show ?case
  proof (cases "gp_EdgeInUse L g arc \<and> 0 \<le> e \<and> e < g_edgeCount s")
    case False
    then have "mapped_edge_id L s g arc = None"
      using e by (auto simp: mapped_edge_id_def)
    then show ?thesis
      using False e Cons.IH [OF Cons.prems, of c]
      by (auto simp: mapped_edge_ids_Cons)
  next
    case True
    then have m: "mapped_edge_id L s g arc = Some e"
      using e by (simp add: mapped_edge_id_def)
    show ?thesis
    proof (cases "seen ! nat e")
      case True
      then show ?thesis
        using \<open>gp_EdgeInUse L g arc \<and> 0 \<le> e \<and> e < g_edgeCount s\<close> e m
          Cons.IH [OF Cons.prems, of c]
        by (simp add: mapped_edge_ids_Cons)
    next
      case False
      have len: "length (seen[nat e := True]) = nat (g_edgeCount s)"
        using Cons.prems by simp
      have ne: "nat e < length seen"
        using True Cons.prems by auto
      have nonneg: "\<forall>x \<in> set (mapped_edge_ids L s g arcs). 0 \<le> x"
        using mapped_edge_ids_range [of _ L s g arcs] by blast
      have f: "filter (\<lambda>x. \<not> seen[nat e := True] ! nat x) (mapped_edge_ids L s g arcs)
                 = removeAll e (filter (\<lambda>x. \<not> seen ! nat x) (mapped_edge_ids L s g arcs))"
        using unseen_after_mark [OF nonneg _ ne] True by simp
      obtain seen' where IH:
        "witness_edge_count_loop L s g arcs (seen[nat e := True], c + 1) =
           Some (seen',
                 c + 1 + int (length (first_occurrences (removeAll e
                           (filter (\<lambda>x. \<not> seen ! nat x) (mapped_edge_ids L s g arcs))))))"
        using Cons.IH [OF len, of "c + 1"] unfolding f by blast
      show ?thesis
        using True False e m
        by (simp add: mapped_edge_ids_Cons IH)
    qed
  qed
qed

lemma unseen_initially:
  assumes "\<forall>x \<in> set xs. 0 \<le> x \<and> x < m"
  shows "filter (\<lambda>x. \<not> replicate (nat m) False ! nat x) xs = xs"
proof -
  have "\<not> replicate (nat m) False ! nat x" if "x \<in> set xs" for x
    using that assms by auto
  then show ?thesis by (simp cong: filter_cong)
qed

lemma witness_edges_run:
  assumes "g_graph s = Some g" and "g_lastEmbedResult s = NONEMBEDDABLE L" and "map_allocated s"
  shows "tl_planarity_write_witness_edges L True s out = Some (written 0 (witness_edge_ids L s g) out)"
    and "tl_planarity_witness_edge_count L True s = Some (int (length (witness_edge_ids L s g)))"
proof -
  let ?arcs = "[gp_GetFirstEdge L g..gp_EdgeInUseIndexBound L g - 1]"
  have u: "filter (\<lambda>x. \<not> replicate (nat (g_edgeCount s)) False ! nat x) (mapped_edge_ids L s g ?arcs)
             = mapped_edge_ids L s g ?arcs"
    using unseen_initially [of "mapped_edge_ids L s g ?arcs" "g_edgeCount s"]
      mapped_edge_ids_range [of _ L s g ?arcs] by blast
  show "tl_planarity_write_witness_edges L True s out = Some (written 0 (witness_edge_ids L s g) out)"
    using assms(1,2)
      write_witness_edges_loop_eq [OF assms(3), of "replicate (nat (g_edgeCount s)) False" L g ?arcs 0 out]
    by (auto simp: tl_planarity_write_witness_edges_def witness_edge_ids_def u Let_def)
  show "tl_planarity_witness_edge_count L True s = Some (int (length (witness_edge_ids L s g)))"
    using assms(1,2)
      witness_edge_count_loop_eq [OF assms(3), of "replicate (nat (g_edgeCount s)) False" L g ?arcs 0]
    by (auto simp: tl_planarity_witness_edge_count_def witness_edge_ids_def u Let_def)
qed

lemma mapped_edge_ids_set:
  "set (mapped_edge_ids L s g arcs) =
     {e. 0 \<le> e \<and> e < g_edgeCount s \<and>
         (\<exists>arc \<in> set arcs. gp_EdgeInUse L g arc \<and> edgeId_of_arc s arc = Some e)}"
  by (induction arcs)
     (auto simp: mapped_edge_ids_Nil mapped_edge_ids_Cons mapped_edge_id_def
           split: option.splits if_splits)

text \<open>
  Claim C7, as stated, fails when the allocation of the scratch array fails: the
  writer returns at once and stores nothing, although the last outcome is NONEMBEDDABLE
  and ten edge identities are mapped from in-use arcs.
\<close>

theorem witness_edges_calloc_failure:
  "g_graph k5_session = Some k5_graph \<and>
   g_lastEmbedResult k5_session = NONEMBEDDABLE sampleLib \<and>
   gp_EdgeInUse sampleLib k5_graph 2 \<and> edgeId_of_arc k5_session 2 = Some 1 \<and>
   tl_planarity_write_witness_edges sampleLib False k5_session zero_buffer = Some zero_buffer \<and>
   tl_planarity_witness_edge_count sampleLib True k5_session = Some 10"
proof -
  have "tl_planarity_write_witness_edges sampleLib False k5_session zero_buffer = Some zero_buffer"
    by (simp add: tl_planarity_write_witness_edges_def k5_session_state)
  moreover have "g_graph k5_session = Some k5_graph \<and>
      g_lastEmbedResult k5_session = NONEMBEDDABLE sampleLib \<and>
      gp_EdgeInUse sampleLib k5_graph 2 \<and> edgeId_of_arc k5_session 2 = Some 1 \<and>
      tl_planarity_witness_edge_count sampleLib True k5_session = Some 10"
    by code_simp
  ultimately show ?thesis by simp
qed

text \<open>
  Claim C7, amended. When a graph is held, the last outcome is NONEMBEDDABLE and the
  arc map is allocated, a call whose scratch allocation succeeds behaves as claimed: the
  edge writer stores, from index 0 on, each distinct edge identity mapped from an in-use
  arc exactly once, in the order in which the arcs first show it, and changes no other
  cell, and the edge count is the number of entries the writer stores. A call whose
  scratch allocation fails stores nothing, or returns 0.
\<close>

theorem witness_edges_emitted:
  assumes "g_graph s = Some g" and "g_lastEmbedResult s = NONEMBEDDABLE L" and "map_allocated s"
  shows "tl_planarity_write_witness_edges L True s out
           = Some (written 0 (witness_edge_ids L s g) out) \<and>
         tl_planarity_witness_edge_count L True s
           = Some (int (length (witness_edge_ids L s g))) \<and>
         distinct (witness_edge_ids L s g) \<and>
         set (witness_edge_ids L s g) =
           {e. 0 \<le> e \<and> e < g_edgeCount s \<and>
               (\<exists>arc. gp_GetFirstEdge L g \<le> arc \<and> arc < gp_EdgeInUseIndexBound L g \<and>
                      gp_EdgeInUse L g arc \<and> edgeId_of_arc s arc = Some e)} \<and>
         tl_planarity_write_witness_edges L False s out = Some out \<and>
         tl_planarity_witness_edge_count L False s = Some 0"
proof -
  have "set (witness_edge_ids L s g) =
           {e. 0 \<le> e \<and> e < g_edgeCount s \<and>
               (\<exists>arc. gp_GetFirstEdge L g \<le> arc \<and> arc < gp_EdgeInUseIndexBound L g \<and>
                      gp_EdgeInUse L g arc \<and> edgeId_of_arc s arc = Some e)}"
    unfolding witness_edge_ids_def first_occurrences_set mapped_edge_ids_set by auto
  moreover have "distinct (witness_edge_ids L s g)"
    by (simp add: witness_edge_ids_def first_occurrences_distinct)
  moreover have "tl_planarity_write_witness_edges L False s out = Some out"
    and "tl_planarity_witness_edge_count L False s = Some 0"
    using assms(1,2)
    by (simp_all add: tl_planarity_write_witness_edges_def tl_planarity_witness_edge_count_def)
  ultimately show ?thesis
    using witness_edges_run [OF assms] by simp
qed

theorem witness_edges_emitted_witness:
  "tl_planarity_write_witness_edges sampleLib True k5_session zero_buffer
     = Some (written 0 [0, 1, 2, 3, 4, 5, 6, 7, 8, 9] zero_buffer) \<and>
   tl_planarity_witness_edge_count sampleLib True k5_session = Some 10"
proof -
  have ids: "witness_edge_ids sampleLib k5_session k5_graph = [0, 1, 2, 3, 4, 5, 6, 7, 8, 9]"
    by code_simp
  have g: "g_graph k5_session = Some k5_graph"
    and r: "g_lastEmbedResult k5_session = NONEMBEDDABLE sampleLib"
    and a: "map_allocated k5_session"
    by (rule k5_session_state)+
  show ?thesis
    using witness_edges_emitted [OF g r a, of zero_buffer] ids by simp
qed

subsection \<open>Reading the arc map is total\<close>

text \<open>
  Claim C10. For every arc handle outside \<open>[0, g_edgeIdByArcSize)\<close> the guarded
  read yields \<open>-1\<close> whatever the map pointer is, so the map is not accessed. With the
  map allocated, the read yields a value for every arc handle, and the two witness-edge
  functions return: the writer stores a list of values that all lie in
  \<open>[0, g_edgeCount)\<close> and changes no other cell, and the count is the length of that
  list. Every run that records an outcome other than 0 leaves the map allocated.
\<close>

theorem arc_lookup_total:
  "(arc < 0 \<or> g_edgeIdByArcSize s \<le> arc \<longrightarrow> edgeId_of_arc s arc = Some (-1)) \<and>
   (map_allocated s \<longrightarrow>
      (\<exists>e. edgeId_of_arc s arc = Some e) \<and>
      (\<exists>ids. tl_planarity_write_witness_edges L callocOk s out = Some (written 0 ids out) \<and>
             tl_planarity_witness_edge_count L callocOk s = Some (int (length ids)) \<and>
             (\<forall>e \<in> set ids. 0 \<le> e \<and> e < g_edgeCount s))) \<and>
   (g_lastEmbedResult (snd (tl_planarity_run L mallocOk callocOk' s0 n m u v embedFlags)) \<noteq> 0 \<longrightarrow>
      map_allocated (snd (tl_planarity_run L mallocOk callocOk' s0 n m u v embedFlags)))"
proof -
  have "\<exists>ids. tl_planarity_write_witness_edges L callocOk s out = Some (written 0 ids out) \<and>
             tl_planarity_witness_edge_count L callocOk s = Some (int (length ids)) \<and>
             (\<forall>e \<in> set ids. 0 \<le> e \<and> e < g_edgeCount s)"
    if alloc: "map_allocated s"
  proof (cases "\<exists>g. g_graph s = Some g \<and> g_lastEmbedResult s = NONEMBEDDABLE L \<and> callocOk")
    case True
    then obtain g where g: "g_graph s = Some g" "g_lastEmbedResult s = NONEMBEDDABLE L" and c: "callocOk"
      by blast
    have "\<forall>e \<in> set (witness_edge_ids L s g). 0 \<le> e \<and> e < g_edgeCount s"
      using mapped_edge_ids_range [of _ L s g]
      by (auto simp: witness_edge_ids_def first_occurrences_set)
    then show ?thesis
      using witness_edges_run(1) [OF g alloc, of out] witness_edges_run(2) [OF g alloc] c
      by auto
  next
    case False
    then have "tl_planarity_write_witness_edges L callocOk s out = Some (written 0 [] out) \<and>
               tl_planarity_witness_edge_count L callocOk s = Some (int (length ([] :: int list)))"
      by (auto simp: tl_planarity_write_witness_edges_def tl_planarity_witness_edge_count_def
            written_Nil split: option.splits)
    then show ?thesis
      by (metis empty_iff empty_set)
  qed
  then show ?thesis
    using edgeId_of_arc_outside [of arc s] edgeId_of_arc_total [of s arc]
      run_map_allocated [of L mallocOk callocOk' s0 n m u v embedFlags]
    by blast
qed

theorem arc_lookup_total_witness:
  "edgeId_of_arc k5_session 30 = Some (-1) \<and> edgeId_of_arc k5_session (-1) = Some (-1) \<and>
   map_allocated k5_session \<and> edgeId_of_arc k5_session 7 = Some 3 \<and>
   map_allocated triangle_session"
proof -
  have a: "map_allocated k5_session" "g_edgeIdByArcSize k5_session \<le> 30"
    "edgeId_of_arc k5_session 7 = Some 3"
    by code_simp+
  have r: "g_lastEmbedResult triangle_session \<noteq> 0"
    unfolding triangle_session_def by code_simp
  show ?thesis
    using arc_lookup_total [of 30 k5_session sampleLib True zero_buffer True True
        initial_session 3 3 triangle_u triangle_v 1]
      arc_lookup_total [of "-1" k5_session sampleLib True zero_buffer True True
        initial_session 3 3 triangle_u triangle_v 1]
      a r
    by (simp add: triangle_session_def)
qed

subsection \<open>Writing the rotation\<close>

lemma edgeId_of_arc_allocated:
  "map_allocated s \<Longrightarrow> edgeId_of_arc s arc = Some (arc_edge_id s arc)"
  using edgeId_of_arc_total [of s arc] by (auto simp: arc_edge_id_def)

lemma count_arcs_walk:
  "arc_walk L g arc as \<Longrightarrow> count_arcs L g arc tot = Some (tot + int (length as))"
proof (induction as arbitrary: arc tot)
  case Nil
  then show ?case by (subst count_arcs.simps) simp
next
  case (Cons a as)
  then show ?case by (subst count_arcs.simps) simp
qed

lemma write_arcs_walk:
  assumes "map_allocated s"
  shows "arc_walk L g arc as \<Longrightarrow>
     write_arcs L s g arc (c, out) =
       Some (c + int (length as),
             out\<lparr>edgeIds := written c (map (arc_edge_id s) as) (edgeIds out),
                 neighbors := written c (map (gp_GetNeighbor L g) as) (neighbors out)\<rparr>)"
proof (induction as arbitrary: arc c out)
  case Nil
  then show ?case by (subst write_arcs.simps) (simp add: written_Nil)
next
  case (Cons a as)
  then have w: "arc_walk L g (gp_GetNextArc L g arc) as" and a: "a = arc" "gp_IsArc L arc"
    by simp_all
  show ?case
    by (subst write_arcs.simps)
       (simp add: a edgeId_of_arc_allocated [OF assms] Cons.IH [OF w] written_Cons fun_upd_def)
qed

lemma rotation_size_loop_walk:
  assumes "\<forall>v \<in> set vs. arc_walk L g (gp_GetFirstArc L g v) (adj v)"
  shows "rotation_size_loop L g vs tot = Some (tot + int (length (concat (map adj vs))))"
  using assms
proof (induction vs arbitrary: tot)
  case Nil
  then show ?case by simp
next
  case (Cons v vs)
  then have "count_arcs L g (gp_GetFirstArc L g v) tot = Some (tot + int (length (adj v)))"
    by (simp add: count_arcs_walk)
  then show ?case
    using Cons by (simp add: add.assoc)
qed

lemma write_rotation_loop_walk:
  assumes "map_allocated s"
  shows "\<forall>v \<in> set vs. arc_walk L g (gp_GetFirstArc L g v) (adj v) \<Longrightarrow> distinct vs \<Longrightarrow>
     write_rotation_loop L s g vs (c, out) =
       Some (c + int (length (concat (map adj vs))),
             \<lparr>offsets = (\<lambda>w. if w \<in> set vs
                              then c + int (length (concat (map adj (takeWhile (\<lambda>x. x \<noteq> w) vs))))
                              else offsets out w),
              edgeIds = written c (map (arc_edge_id s) (concat (map adj vs))) (edgeIds out),
              neighbors = written c (map (gp_GetNeighbor L g) (concat (map adj vs))) (neighbors out)\<rparr>)"
proof (induction vs arbitrary: c out)
  case Nil
  then show ?case by (simp add: written_Nil)
next
  case (Cons v vs)
  have walk: "arc_walk L g (gp_GetFirstArc L g v) (adj v)"
    and rest: "\<forall>w \<in> set vs. arc_walk L g (gp_GetFirstArc L g w) (adj w)"
    and d: "distinct vs" and nv: "v \<notin> set vs"
    using Cons.prems by simp_all
  show ?case
    using nv
    by (simp add: write_arcs_walk [OF assms walk] Cons.IH [OF rest d] written_append fun_eq_iff
          add.assoc fun_upd_def)
qed

lemma upto_takeWhile:
  assumes "i \<le> v" and "v \<le> j"
  shows "takeWhile (\<lambda>x. x \<noteq> v) [i..j] = [i..v - 1]"
proof -
  have split: "[i..j] = [i..v - 1] @ v # [v + 1..j]"
    using assms by (rule upto_split3)
  have "takeWhile (\<lambda>x. x \<noteq> v) ([i..v - 1] @ v # [v + 1..j])
          = [i..v - 1] @ takeWhile (\<lambda>x. x \<noteq> v) (v # [v + 1..j])"
    by (rule takeWhile_append2) auto
  then show ?thesis
    unfolding split [symmetric] by simp
qed

lemma concat_upto_nth:
  assumes "0 \<le> v" and "v < n" and "k < length (adj v)"
  shows "concat (map adj [0..n - 1]) ! (length (concat (map adj [0..v - 1])) + k) = adj v ! k"
    and "length (concat (map adj [0..v - 1])) + k < length (concat (map adj [0..n - 1]))"
proof -
  have "[0..n - 1] = [0..v - 1] @ v # [v + 1..n - 1]"
    using assms(1,2) by (intro upto_split3) auto
  then have c: "concat (map adj [0..n - 1]) =
                  concat (map adj [0..v - 1]) @ adj v @ concat (map adj [v + 1..n - 1])"
    by simp
  show "concat (map adj [0..n - 1]) ! (length (concat (map adj [0..v - 1])) + k) = adj v ! k"
    unfolding c using assms(3) by (simp add: nth_append)
  show "length (concat (map adj [0..v - 1])) + k < length (concat (map adj [0..n - 1]))"
    unfolding c using assms(3) by simp
qed

lemma written_nth:
  "j < length xs \<Longrightarrow> written 0 xs out (int j) = xs ! j"
  by (simp add: written_def)

lemma written_outside:
  "i < c \<or> c + int (length xs) \<le> i \<Longrightarrow> written c xs out i = out i"
  by (auto simp: written_def)

text \<open>
  Claim C6. When a graph is held, the last outcome is OK, the arc map is allocated and
  the walk over the arcs of every vertex in \<open>[0, g_vertexCount)\<close> ends, having
  visited the arcs \<open>adj v\<close>, the rotation writer returns and leaves: in \<open>offsets[v]\<close>,
  for every vertex \<open>v\<close> and for \<open>v = g_vertexCount\<close>, the number of arcs of all
  lower vertices, which is the cursor position at which the arcs of \<open>v\<close> start and,
  for \<open>g_vertexCount\<close>, the total; at position \<open>offsets[v] + k\<close> the map entry (or
  \<open>-1\<close>) of the \<open>k\<close>-th arc of \<open>v\<close> in \<open>edgeIds\<close> and its neighbor
  vertex in \<open>neighbors\<close>. No other cell changes, and the rotation size is the total.
\<close>

theorem rotation_written:
  assumes "g_graph s = Some g" and "g_lastEmbedResult s = OK L" and "map_allocated s"
    and "\<forall>v. 0 \<le> v \<and> v < g_vertexCount s \<longrightarrow> arc_walk L g (gp_GetFirstArc L g v) (adj v)"
  shows "\<exists>out'. tl_planarity_write_rotation L s out = Some out' \<and>
           (\<forall>v. 0 \<le> v \<and> v \<le> g_vertexCount s \<longrightarrow>
                offsets out' v = int (length (concat (map adj [0..v - 1])))) \<and>
           (\<forall>v k. 0 \<le> v \<and> v < g_vertexCount s \<and> k < length (adj v) \<longrightarrow>
                edgeIds out' (offsets out' v + int k) = arc_edge_id s (adj v ! k) \<and>
                neighbors out' (offsets out' v + int k) = gp_GetNeighbor L g (adj v ! k)) \<and>
           (\<forall>i. i < 0 \<or> int (length (concat (map adj [0..g_vertexCount s - 1]))) \<le> i \<longrightarrow>
                edgeIds out' i = edgeIds out i \<and> neighbors out' i = neighbors out i) \<and>
           (\<forall>v. (v < 0 \<or> g_vertexCount s < v) \<and> v \<noteq> g_vertexCount s \<longrightarrow>
                offsets out' v = offsets out v) \<and>
           tl_planarity_rotation_size L s
             = Some (int (length (concat (map adj [0..g_vertexCount s - 1]))))"
proof -
  let ?n = "g_vertexCount s"
  let ?flat = "concat (map adj [0..?n - 1])"
  let ?off = "\<lambda>w. if w \<in> set [0..?n - 1]
                   then 0 + int (length (concat (map adj (takeWhile (\<lambda>x. x \<noteq> w) [0..?n - 1]))))
                   else offsets out w"
  let ?out1 = "\<lparr>offsets = ?off,
               edgeIds = written 0 (map (arc_edge_id s) ?flat) (edgeIds out),
               neighbors = written 0 (map (gp_GetNeighbor L g) ?flat) (neighbors out)\<rparr>"
  let ?out' = "?out1\<lparr>offsets := (offsets ?out1)(?n := int (length ?flat))\<rparr>"
  have walks: "\<forall>v \<in> set [0..?n - 1]. arc_walk L g (gp_GetFirstArc L g v) (adj v)"
    using assms(4) by simp
  have loop: "write_rotation_loop L s g [0..?n - 1] (0, out) = Some (0 + int (length ?flat), ?out1)"
    using write_rotation_loop_walk [OF assms(3) walks, of 0 out] by simp
  have run: "tl_planarity_write_rotation L s out = Some ?out'"
    using assms(1,2) loop by (simp add: tl_planarity_write_rotation_def)
  have size: "tl_planarity_rotation_size L s = Some (int (length ?flat))"
    using assms(1,2) rotation_size_loop_walk [OF walks, of 0]
    by (simp add: tl_planarity_rotation_size_def)
  have off: "offsets ?out' v = int (length (concat (map adj [0..v - 1])))"
    if "0 \<le> v" "v \<le> ?n" for v
  proof (cases "v = ?n")
    case True
    then show ?thesis by simp
  next
    case False
    then have "v \<le> ?n - 1" using that by simp
    then show ?thesis
      using that False upto_takeWhile [of 0 v "?n - 1"] by simp
  qed
  have entry: "edgeIds ?out' (offsets ?out' v + int k) = arc_edge_id s (adj v ! k) \<and>
               neighbors ?out' (offsets ?out' v + int k) = gp_GetNeighbor L g (adj v ! k)"
    if "0 \<le> v" "v < ?n" "k < length (adj v)" for v k
  proof -
    let ?j = "length (concat (map adj [0..v - 1])) + k"
    have o: "offsets ?out' v + int k = int ?j"
      using off [of v] that by simp
    have j: "?flat ! ?j = adj v ! k" "?j < length ?flat"
      using concat_upto_nth [of v ?n k adj] that by simp_all
    have "edgeIds ?out' (int ?j) = map (arc_edge_id s) ?flat ! ?j"
      using j(2) written_nth [of ?j "map (arc_edge_id s) ?flat" "edgeIds out"] by simp
    moreover have "neighbors ?out' (int ?j) = map (gp_GetNeighbor L g) ?flat ! ?j"
      using j(2) written_nth [of ?j "map (gp_GetNeighbor L g) ?flat" "neighbors out"] by simp
    ultimately show ?thesis
      unfolding o using j by simp
  qed
  have frame: "edgeIds ?out' i = edgeIds out i \<and> neighbors ?out' i = neighbors out i"
    if "i < 0 \<or> int (length ?flat) \<le> i" for i
    using that by (simp add: written_outside)
  have oframe: "offsets ?out' v = offsets out v" if "(v < 0 \<or> ?n < v) \<and> v \<noteq> ?n" for v
    using that by auto
  show ?thesis
    using run size off entry frame oframe by blast
qed

theorem rotation_written_witness:
  "\<exists>out'. tl_planarity_write_rotation sampleLib triangle_session zero_out = Some out' \<and>
      map (offsets out') [0, 1, 2, 3] = [0, 2, 4, 6] \<and>
      map (edgeIds out') [0, 1, 2, 3, 4, 5] = [0, 2, 0, 1, 1, 2] \<and>
      map (neighbors out') [0, 1, 2, 3, 4, 5] = [1, 2, 0, 2, 1, 0] \<and>
      tl_planarity_rotation_size sampleLib triangle_session = Some 6"
proof -
  have g: "g_graph triangle_session = Some triangle_graph"
    and r: "g_lastEmbedResult triangle_session = OK sampleLib"
    and a: "map_allocated triangle_session"
    and n: "g_vertexCount triangle_session = 3"
    unfolding triangle_session_def by code_simp+
  have w: "\<forall>v. 0 \<le> v \<and> v < g_vertexCount triangle_session \<longrightarrow>
             arc_walk sampleLib triangle_graph (gp_GetFirstArc sampleLib triangle_graph v)
               (triangle_adj v)"
  proof (intro allI impI)
    fix v :: int
    assume "0 \<le> v \<and> v < g_vertexCount triangle_session"
    then have "v = 0 \<or> v = 1 \<or> v = 2"
      unfolding n by arith
    moreover have "arc_walk sampleLib triangle_graph (gp_GetFirstArc sampleLib triangle_graph 0)
                     (triangle_adj 0)"
      and "arc_walk sampleLib triangle_graph (gp_GetFirstArc sampleLib triangle_graph 1)
                     (triangle_adj 1)"
      and "arc_walk sampleLib triangle_graph (gp_GetFirstArc sampleLib triangle_graph 2)
                     (triangle_adj 2)"
      by code_simp+
    ultimately show "arc_walk sampleLib triangle_graph
                       (gp_GetFirstArc sampleLib triangle_graph v) (triangle_adj v)"
      by blast
  qed
  have lens: "int (length (concat (map triangle_adj [0..0 - 1]))) = 0"
    "int (length (concat (map triangle_adj [0..1 - 1]))) = 2"
    "int (length (concat (map triangle_adj [0..2 - 1]))) = 4"
    "int (length (concat (map triangle_adj [0..3 - 1]))) = 6"
    by code_simp+
  have ids: "map (arc_edge_id triangle_session) [0, 5, 1, 2, 3, 4] = [0, 2, 0, 1, 1, 2]"
    unfolding triangle_session_def by code_simp
  have nbs: "map (gp_GetNeighbor sampleLib triangle_graph) [0, 5, 1, 2, 3, 4] = [1, 2, 0, 2, 1, 0]"
    by code_simp
  obtain out' where run: "tl_planarity_write_rotation sampleLib triangle_session zero_out = Some out'"
    and off: "\<And>v. 0 \<le> v \<and> v \<le> 3 \<Longrightarrow>
                offsets out' v = int (length (concat (map triangle_adj [0..v - 1])))"
    and ent: "\<And>v k. 0 \<le> v \<and> v < 3 \<and> k < length (triangle_adj v) \<Longrightarrow>
                edgeIds out' (offsets out' v + int k) = arc_edge_id triangle_session (triangle_adj v ! k) \<and>
                neighbors out' (offsets out' v + int k)
                  = gp_GetNeighbor sampleLib triangle_graph (triangle_adj v ! k)"
    and size: "tl_planarity_rotation_size sampleLib triangle_session = Some 6"
    using rotation_written [OF g r a w, of zero_out] lens(4) unfolding n by auto
  have o: "offsets out' 0 = 0" "offsets out' 1 = 2" "offsets out' 2 = 4" "offsets out' 3 = 6"
    using off [of 0] off [of 1] off [of 2] off [of 3] lens by simp_all
  have e: "edgeIds out' 0 = arc_edge_id triangle_session 0 \<and>
           neighbors out' 0 = gp_GetNeighbor sampleLib triangle_graph 0"
    "edgeIds out' 1 = arc_edge_id triangle_session 5 \<and>
           neighbors out' 1 = gp_GetNeighbor sampleLib triangle_graph 5"
    "edgeIds out' 2 = arc_edge_id triangle_session 1 \<and>
           neighbors out' 2 = gp_GetNeighbor sampleLib triangle_graph 1"
    "edgeIds out' 3 = arc_edge_id triangle_session 2 \<and>
           neighbors out' 3 = gp_GetNeighbor sampleLib triangle_graph 2"
    "edgeIds out' 4 = arc_edge_id triangle_session 3 \<and>
           neighbors out' 4 = gp_GetNeighbor sampleLib triangle_graph 3"
    "edgeIds out' 5 = arc_edge_id triangle_session 4 \<and>
           neighbors out' 5 = gp_GetNeighbor sampleLib triangle_graph 4"
    using ent [of 0 0] ent [of 0 1] ent [of 1 0] ent [of 1 1] ent [of 2 0] ent [of 2 1] o
    by (simp_all add: triangle_adj_def)
  show ?thesis
    using run o e ids nbs size by simp
qed

subsection \<open>The matching phase\<close>

lemma map_entry_store:
  assumes "length tab = nat mapSize"
  shows "map_entry mapSize (store_edgeId mapSize c e tab) a =
           (if a = c \<and> 0 \<le> c \<and> c < mapSize then e else map_entry mapSize tab a)"
proof (cases "0 \<le> c \<and> c < mapSize")
  case False
  then show ?thesis by (auto simp: map_entry_def store_edgeId_def)
next
  case True
  have "(nat a = nat c) = (a = c)" if "0 \<le> a" for a
    using that True by auto
  then show ?thesis
    using True assms by (auto simp: map_entry_def store_edgeId_def nth_list_update)
qed

lemma find_match_spec:
  assumes "sorted es" and "\<forall>e \<in> set es. 0 \<le> e"
  shows "case find_match u v uArc vArc used es of
           (r, used') \<Rightarrow>
             if r < 0
             then r = -1 \<and> used' = used \<and>
                  (\<forall>e \<in> set es. (u e = uArc \<and> v e = vArc) \<or> (u e = vArc \<and> v e = uArc)
                      \<longrightarrow> used ! nat e)
             else r \<in> set es \<and> \<not> used ! nat r \<and>
                  ((u r = uArc \<and> v r = vArc) \<or> (u r = vArc \<and> v r = uArc)) \<and>
                  used' = used[nat r := True] \<and>
                  (\<forall>e \<in> set es. e < r \<and> ((u e = uArc \<and> v e = vArc) \<or> (u e = vArc \<and> v e = uArc))
                      \<longrightarrow> used ! nat e)"
  using assms
proof (induction es)
  case Nil
  then show ?case by simp
next
  case (Cons e es)
  then have IH: "case find_match u v uArc vArc used es of
           (r, used') \<Rightarrow>
             if r < 0
             then r = -1 \<and> used' = used \<and>
                  (\<forall>e \<in> set es. (u e = uArc \<and> v e = vArc) \<or> (u e = vArc \<and> v e = uArc)
                      \<longrightarrow> used ! nat e)
             else r \<in> set es \<and> \<not> used ! nat r \<and>
                  ((u r = uArc \<and> v r = vArc) \<or> (u r = vArc \<and> v r = uArc)) \<and>
                  used' = used[nat r := True] \<and>
                  (\<forall>e \<in> set es. e < r \<and> ((u e = uArc \<and> v e = vArc) \<or> (u e = vArc \<and> v e = uArc))
                      \<longrightarrow> used ! nat e)"
    by simp
  have least: "\<forall>x \<in> set es. e \<le> x" and nonneg: "0 \<le> e"
    using Cons.prems by auto
  show ?case
  proof (cases "\<not> used ! nat e \<and> ((u e = uArc \<and> v e = vArc) \<or> (u e = vArc \<and> v e = uArc))")
    case True
    then show ?thesis
      using least nonneg by auto
  next
    case False
    then have "find_match u v uArc vArc used (e # es) = find_match u v uArc vArc used es"
      by auto
    then show ?thesis
      using IH False by (auto split: prod.splits if_splits)
  qed
qed

lemma matching_inv_skip:
  assumes inv: "matching_inv L g m u v mapSize P st"
    and above: "\<forall>p \<in> P. p < c"
    and skip: "\<not> (gp_EdgeInUse L g c \<and> c \<le> gp_GetTwinArc L g c)"
  shows "matching_inv L g m u v mapSize (insert c P) st"
  using inv skip unfolding matching_inv_def
  by (cases st) (simp, blast)

lemma match_arc_skip:
  "\<not> (gp_EdgeInUse L g c \<and> c \<le> gp_GetTwinArc L g c) \<Longrightarrow>
     match_arc L g m u v mapSize c st = st"
  by (cases st) (auto simp: match_arc_def Let_def)

lemma match_arc_inv:
  assumes tp: "twin_pairing L g mapSize"
    and inv: "matching_inv L g m u v mapSize P st"
    and above: "\<forall>p \<in> P. p < c"
    and range: "0 \<le> c \<and> c < mapSize"
  shows "matching_inv L g m u v mapSize (insert c P) (match_arc L g m u v mapSize c st)"
proof (cases "gp_EdgeInUse L g c \<and> c \<le> gp_GetTwinArc L g c")
  case False
  then show ?thesis
    using matching_inv_skip [OF inv above] match_arc_skip [of L g c] by simp
next
  case canonical: True
  obtain used tab where st: "st = (used, tab)" by (cases st)
  define t where "t = gp_GetTwinArc L g c"
  define M where "M = map_entry mapSize tab"
  let ?tw = "gp_GetTwinArc L g"
  let ?em = "endpoints_match L g u v"
  have invol: "\<And>a. ?tw (?tw a) = a"
    and closed: "\<And>a. (0 \<le> ?tw a \<and> ?tw a < mapSize) = (0 \<le> a \<and> a < mapSize)"
    using tp by (auto simp: twin_pairing_def)
  have tc: "?tw t = c" and ct: "c \<le> t" and trange: "0 \<le> t \<and> t < mapSize"
    using invol closed range canonical by (auto simp: t_def)
  have I1: "length used = nat m" "length tab = nat mapSize"
    and I0: "\<And>a. - 1 \<le> M a"
    and I2: "\<And>a. M (?tw a) = M a"
    and I3: "\<And>a. 0 \<le> M a \<Longrightarrow> M a < m \<and> used ! nat (M a)"
    and I4: "\<And>a b. 0 \<le> M a \<Longrightarrow> M b = M a \<Longrightarrow> b = a \<or> b = ?tw a"
    and I5: "\<And>e. 0 \<le> e \<Longrightarrow> e < m \<Longrightarrow> used ! nat e \<Longrightarrow> \<exists>b \<in> P. M b = e"
    and I6: "\<And>a. 0 \<le> M a \<Longrightarrow> min a (?tw a) \<in> P \<and> ?em a (M a) \<and>
                (\<forall>e'. 0 \<le> e' \<and> e' < M a \<and> ?em a e' \<longrightarrow> (\<exists>b. b < min a (?tw a) \<and> M b = e'))"
    and I7: "\<And>d e. d \<in> P \<Longrightarrow> gp_EdgeInUse L g d \<and> d \<le> ?tw d \<and> M d < 0 \<Longrightarrow>
                0 \<le> e \<and> e < m \<and> ?em d e \<Longrightarrow> \<exists>b. b < d \<and> M b = e"
    using inv unfolding matching_inv_def st M_def by auto
  have cP: "c \<notin> P" using above by auto
  have Mc: "M c < 0"
  proof (rule ccontr)
    assume "\<not> M c < 0"
    then have "min c (?tw c) \<in> P" using I6 [of c] by simp
    then show False using cP ct by (simp add: t_def min_def)
  qed
  have Mt: "M t < 0"
    using Mc I2 [of c] by (simp add: t_def)
  obtain r used' where fm:
    "find_match u v (gp_GetNeighbor L g t) (gp_GetNeighbor L g c) used [0..m - 1] = (r, used')"
    by (cases "find_match u v (gp_GetNeighbor L g t) (gp_GetNeighbor L g c) used [0..m - 1]")
  have spec: "if r < 0
             then r = -1 \<and> used' = used \<and> (\<forall>e. 0 \<le> e \<and> e < m \<and> ?em c e \<longrightarrow> used ! nat e)
             else 0 \<le> r \<and> r < m \<and> \<not> used ! nat r \<and> ?em c r \<and> used' = used[nat r := True] \<and>
                  (\<forall>e. 0 \<le> e \<and> e < r \<and> ?em c e \<longrightarrow> used ! nat e)"
    using find_match_spec [where es = "[0..m - 1]" and u = u and v = v and used = used
        and uArc = "gp_GetNeighbor L g t" and vArc = "gp_GetNeighbor L g c"]
    unfolding fm by (auto simp: endpoints_match_def t_def split: if_splits)
  show ?thesis
  proof (cases "r < 0")
    case True
    then have res: "match_arc L g m u v mapSize c st = st"
      using canonical fm spec by (auto simp: match_arc_def st Let_def t_def)
    have "\<exists>b. b < c \<and> M b = e" if h: "0 \<le> e \<and> e < m \<and> ?em c e" for e
    proof -
      have "used ! nat e" using spec True h by auto
      then obtain b where "b \<in> P" "M b = e" using I5 [of e] h by auto
      then show ?thesis using above by auto
    qed
    then show ?thesis
      unfolding res using inv
      unfolding matching_inv_def st M_def by simp
  next
    case False
    then have r: "0 \<le> r" "r < m" "\<not> used ! nat r" "?em c r" "used' = used[nat r := True]"
      and first: "\<And>e. 0 \<le> e \<and> e < r \<and> ?em c e \<Longrightarrow> used ! nat e"
      using spec by auto
    define tab' where "tab' = store_edgeId mapSize t r (store_edgeId mapSize c r tab)"
    define M' where "M' = map_entry mapSize tab'"
    have res: "match_arc L g m u v mapSize c st = (used', tab')"
      using canonical fm False by (auto simp: match_arc_def st Let_def t_def tab'_def)
    have M': "M' a = (if a = t \<or> a = c then r else M a)" for a
      unfolding M'_def tab'_def M_def
      using range trange I1(2)
      by (simp add: map_entry_store store_edgeId_length)
    have keep: "M' a = M a" if h: "0 \<le> M a" for a
      using h Mc Mt M' [of a] by auto
    have twin_ct: "(?tw a = t \<or> ?tw a = c) = (a = t \<or> a = c)" for a
      using invol tc by (metis t_def)
    have used'_nth: "used' ! nat e = (e = r \<or> used ! nat e)" if h: "0 \<le> e" "e < m" for e
    proof -
      have "(nat e = nat r) = (e = r)" using h r(1) by auto
      moreover have "nat r < length used" using r(1,2) I1(1) by auto
      ultimately show ?thesis
        unfolding r(5) using h I1(1) by (auto simp: nth_list_update)
    qed
    have J1: "length used' = nat m" "length tab' = nat mapSize"
      using I1 by (simp_all add: r(5) tab'_def store_edgeId_length)
    have J0: "- 1 \<le> M' a" for a
      using M' [of a] I0 [of a] r(1) by auto
    have J2: "M' (?tw a) = M' a" for a
      using M' [of a] M' [of "?tw a"] twin_ct [of a] I2 [of a] by auto
    have J3: "M' a < m \<and> used' ! nat (M' a)" if h: "0 \<le> M' a" for a
    proof (cases "a = t \<or> a = c")
      case True
      then show ?thesis using M' [of a] r used'_nth [of r] by auto
    next
      case False
      then have "M' a = M a" using M' [of a] by simp
      then show ?thesis using h I3 [of a] used'_nth [of "M a"] by auto
    qed
    have J4: "b = a \<or> b = ?tw a" if h: "0 \<le> M' a" "M' b = M' a" for a b
    proof -
      have fresh: "M x \<noteq> r" for x
        using I3 [of x] r(1,3) by auto
      consider "a = t \<or> a = c" "b = t \<or> b = c" | "a = t \<or> a = c" "\<not> (b = t \<or> b = c)"
        | "\<not> (a = t \<or> a = c)" "b = t \<or> b = c" | "\<not> (a = t \<or> a = c)" "\<not> (b = t \<or> b = c)"
        by blast
      then show ?thesis
      proof cases
        case 1
        then show ?thesis using tc by (auto simp: t_def)
      next
        case 2
        then show ?thesis using h M' [of a] M' [of b] fresh [of b] by auto
      next
        case 3
        then show ?thesis using h M' [of a] M' [of b] fresh [of a] by auto
      next
        case 4
        then show ?thesis using h M' [of a] M' [of b] I4 [of a b] by auto
      qed
    qed
    have J5: "\<exists>b \<in> insert c P. M' b = e" if h: "0 \<le> e" "e < m" "used' ! nat e" for e
    proof (cases "e = r")
      case True
      then show ?thesis using M' [of c] by auto
    next
      case False
      then have "used ! nat e" using h used'_nth [of e] by auto
      then obtain b where b: "b \<in> P" "M b = e" using I5 [of e] h by auto
      then have "M' b = e" using keep [of b] h(1) by auto
      then show ?thesis using b(1) by auto
    qed
    have J6: "min a (?tw a) \<in> insert c P \<and> ?em a (M' a) \<and>
              (\<forall>e'. 0 \<le> e' \<and> e' < M' a \<and> ?em a e' \<longrightarrow> (\<exists>b. b < min a (?tw a) \<and> M' b = e'))"
      if h: "0 \<le> M' a" for a
    proof (cases "a = t \<or> a = c")
      case True
      have mn: "min a (?tw a) = c"
        using True tc ct by (auto simp: t_def min_def)
      have em: "?em a e = ?em c e" for e
        using True tc by (auto simp: endpoints_match_def t_def)
      have "\<exists>b. b < c \<and> M' b = e'" if h: "0 \<le> e' \<and> e' < r \<and> ?em c e'" for e'
      proof -
        have "used ! nat e'" using first [of e'] h by auto
        then obtain b where b: "b \<in> P" "M b = e'" using I5 [of e'] h r(2) by auto
        then have "M' b = e'" using keep [of b] h by auto
        then show ?thesis using b(1) above by auto
      qed
      then show ?thesis
        using True M' [of a] mn em r(4) by auto
    next
      case False
      then have eq: "M' a = M a" using M' [of a] by simp
      have "\<exists>b. b < min a (?tw a) \<and> M' b = e'"
        if h: "0 \<le> e' \<and> e' < M a \<and> ?em a e'" for e'
      proof -
        obtain b where b: "b < min a (?tw a)" "M b = e'"
          using I6 [of a] \<open>0 \<le> M' a\<close> eq h by auto
        then have "M' b = e'" using keep [of b] h by auto
        then show ?thesis using b(1) by auto
      qed
      then show ?thesis
        using I6 [of a] h eq by auto
    qed
    have J7: "\<exists>b. b < d \<and> M' b = e"
      if h: "d \<in> insert c P" "gp_EdgeInUse L g d \<and> d \<le> ?tw d \<and> M' d < 0" "0 \<le> e \<and> e < m \<and> ?em d e"
      for d e
    proof -
      have "d \<noteq> c" using h(2) M' [of c] r(1) by auto
      then have dP: "d \<in> P" using h(1) by simp
      have "d \<noteq> t" using h(2) M' [of t] r(1) by auto
      then have "M d < 0" using h(2) M' [of d] \<open>d \<noteq> c\<close> by simp
      then obtain b where b: "b < d" "M b = e"
        using I7 [OF dP _ h(3)] h(2) by auto
      then have "M' b = e" using keep [of b] h(3) by auto
      then show ?thesis using b(1) by auto
    qed
    show ?thesis
      unfolding res matching_inv_def prod.case
      using J0 J1 J2 J3 J4 J5 J6 J7 unfolding M'_def by blast
  qed
qed

lemma match_arcs_inv:
  assumes tp: "twin_pairing L g mapSize"
  shows "sorted_wrt (<) arcs \<Longrightarrow> \<forall>a \<in> set arcs. 0 \<le> a \<and> a < mapSize \<Longrightarrow>
         \<forall>p \<in> P. \<forall>a \<in> set arcs. p < a \<Longrightarrow> matching_inv L g m u v mapSize P st \<Longrightarrow>
         matching_inv L g m u v mapSize (P \<union> set arcs) (match_arcs L g m u v mapSize arcs st)"
proof (induction arcs arbitrary: P st)
  case Nil
  then show ?case by simp
next
  case (Cons c arcs)
  have step: "matching_inv L g m u v mapSize (insert c P) (match_arc L g m u v mapSize c st)"
    using match_arc_inv [OF tp Cons.prems(4)] Cons.prems(2,3) by simp
  have "matching_inv L g m u v mapSize (insert c P \<union> set arcs)
          (match_arcs L g m u v mapSize arcs (match_arc L g m u v mapSize c st))"
    using Cons.prems(1,2,3) by (intro Cons.IH [OF _ _ _ step]) auto
  then show ?case by simp
qed

lemma matching_inv_initial:
  "matching_inv L g m u v mapSize {} (replicate (nat m) False, replicate (nat mapSize) (-1))"
proof -
  have "map_entry mapSize (replicate (nat mapSize) (-1)) a = -1" for a
    by (simp add: map_entry_def)
  then show ?thesis
    by (simp add: matching_inv_def)
qed

lemma build_arc_map_inv:
  assumes tp: "twin_pairing L g mapSize"
  shows "\<exists>used. matching_inv L g m u v mapSize
           {c. gp_GetFirstEdge L g \<le> c \<and> c < gp_EdgeInUseIndexBound L g}
           (used, build_arc_map L g m u v mapSize (replicate (nat mapSize) (-1)))"
proof -
  let ?arcs = "[gp_GetFirstEdge L g..gp_EdgeInUseIndexBound L g - 1]"
  have "sorted_wrt (<) ?arcs"
    by simp
  moreover have "\<forall>a \<in> set ?arcs. 0 \<le> a \<and> a < mapSize"
    using tp by (auto simp: twin_pairing_def)
  ultimately have "matching_inv L g m u v mapSize ({} \<union> set ?arcs)
      (match_arcs L g m u v mapSize ?arcs (replicate (nat m) False, replicate (nat mapSize) (-1)))"
    using match_arcs_inv [OF tp _ _ _ matching_inv_initial] by blast
  moreover have "set ?arcs = {c. gp_GetFirstEdge L g \<le> c \<and> c < gp_EdgeInUseIndexBound L g}"
    by auto
  ultimately show ?thesis
    unfolding build_arc_map_def Let_def
    by (metis Un_empty_left prod.collapse)
qed

lemma build_arc_map_matching:
  assumes tp: "twin_pairing L g mapSize"
    and M: "M = map_entry mapSize (build_arc_map L g m u v mapSize (replicate (nat mapSize) (-1)))"
  shows "(\<forall>a. M (gp_GetTwinArc L g a) = M a \<and> (M a = -1 \<or> 0 \<le> M a \<and> M a < m)) \<and>
         (\<forall>a b. 0 \<le> M a \<and> M b = M a \<longrightarrow> b = a \<or> b = gp_GetTwinArc L g a) \<and>
         (\<forall>a. 0 \<le> M a \<longrightarrow>
              endpoints_match L g u v a (M a) \<and>
              (\<forall>e'. 0 \<le> e' \<and> e' < M a \<and> endpoints_match L g u v a e' \<longrightarrow>
                    (\<exists>b. b < min a (gp_GetTwinArc L g a) \<and> M b = e'))) \<and>
         (\<forall>c. gp_GetFirstEdge L g \<le> c \<and> c < gp_EdgeInUseIndexBound L g \<and>
              gp_EdgeInUse L g c \<and> c \<le> gp_GetTwinArc L g c \<and> M c = -1 \<longrightarrow>
              (\<forall>e. 0 \<le> e \<and> e < m \<and> endpoints_match L g u v c e \<longrightarrow> (\<exists>b. b < c \<and> M b = e)))"
proof -
  obtain used where inv: "matching_inv L g m u v mapSize
           {c. gp_GetFirstEdge L g \<le> c \<and> c < gp_EdgeInUseIndexBound L g}
           (used, build_arc_map L g m u v mapSize (replicate (nat mapSize) (-1)))"
    using build_arc_map_inv [OF tp] by blast
  have I0: "\<And>a. - 1 \<le> M a"
    and I2: "\<And>a. M (gp_GetTwinArc L g a) = M a"
    and I3: "\<And>a. 0 \<le> M a \<Longrightarrow> M a < m"
    and I4: "\<And>a b. 0 \<le> M a \<Longrightarrow> M b = M a \<Longrightarrow> b = a \<or> b = gp_GetTwinArc L g a"
    and I6: "\<And>a. 0 \<le> M a \<Longrightarrow> endpoints_match L g u v a (M a) \<and>
                (\<forall>e'. 0 \<le> e' \<and> e' < M a \<and> endpoints_match L g u v a e' \<longrightarrow>
                      (\<exists>b. b < min a (gp_GetTwinArc L g a) \<and> M b = e'))"
    and I7: "\<And>c e. gp_GetFirstEdge L g \<le> c \<and> c < gp_EdgeInUseIndexBound L g \<Longrightarrow>
                gp_EdgeInUse L g c \<and> c \<le> gp_GetTwinArc L g c \<and> M c < 0 \<Longrightarrow>
                0 \<le> e \<and> e < m \<and> endpoints_match L g u v c e \<Longrightarrow> \<exists>b. b < c \<and> M b = e"
    using inv unfolding matching_inv_def M prod.case by auto
  have sentinel: "M a = -1 \<or> 0 \<le> M a \<and> M a < m" for a
    using I0 [of a] I3 [of a] by linarith
  have P4: "\<exists>b. b < c \<and> M b = e"
    if "gp_GetFirstEdge L g \<le> c \<and> c < gp_EdgeInUseIndexBound L g \<and>
        gp_EdgeInUse L g c \<and> c \<le> gp_GetTwinArc L g c \<and> M c = -1"
      "0 \<le> e \<and> e < m \<and> endpoints_match L g u v c e" for c e
    using I7 [of c e] that by simp
  show ?thesis
    using I2 sentinel I4 I6 P4 by blast
qed

lemma run_arc_map:
  assumes "0 < n" and "0 \<le> m" and "gp_New L = Some g0"
    and "gp_EnsureArcCapacity L g0 (if m * 2 + 4 < 6 * n then 6 * n else m * 2 + 4) = (OK L, g1)"
    and "gp_InitGraph L g1 n = (OK L, g2)"
    and "add_edges L g2 u v [0..m - 1] = (True, g3)"
  shows "g_edgeIdByArc (snd (tl_planarity_run L True True s0 n m u v embedFlags)) =
           Some (build_arc_map L g3 m u v (gp_EdgeIndexBound L g2)
                   (replicate (nat (gp_EdgeIndexBound L g2)) (-1))) \<and>
         g_edgeIdByArcSize (snd (tl_planarity_run L True True s0 n m u v embedFlags)) =
           gp_EdgeIndexBound L g2"
  using assms
  by (simp add: tl_planarity_run_def Let_def split: prod.split)

lemma arc_edge_id_map_entry:
  assumes "g_edgeIdByArc s = Some tab" and "length tab = nat (g_edgeIdByArcSize s)"
  shows "arc_edge_id s = map_entry (g_edgeIdByArcSize s) tab"
  using assms
  by (auto simp: arc_edge_id_def edgeId_of_arc_def map_entry_def fun_eq_iff)

text \<open>
  Claim C4. Take a run whose allocations, capacity request, initialization and edge
  insertions succeed, so that its matching phase completes, and let \<open>g3\<close> be the
  graph after the insertions, with the twin-arc encoding described by
  \<open>twin_pairing\<close>. In the session the run leaves, for every arc handle: the arc and
  its twin have the same map entry, which is \<open>-1\<close> or an edge identity in
  \<open>[0, m)\<close>; two arcs with the same edge identity are equal or twins; and an edge
  identity recorded for an arc has the arc's endpoints as its unordered endpoint pair,
  while every earlier input edge with these endpoints is recorded for an arc with a
  smaller handle than the arc and its twin, that is, was claimed before. An in-use arc
  below its twin that the loop visits and leaves unmapped had no unclaimed input edge
  with its endpoints: every such edge is recorded for an arc with a smaller handle.
\<close>

theorem run_arc_map_matching:
  assumes "0 < n" and "0 \<le> m" and "gp_New L = Some g0"
    and "gp_EnsureArcCapacity L g0 (if m * 2 + 4 < 6 * n then 6 * n else m * 2 + 4) = (OK L, g1)"
    and "gp_InitGraph L g1 n = (OK L, g2)"
    and "add_edges L g2 u v [0..m - 1] = (True, g3)"
    and "twin_pairing L g3 (gp_EdgeIndexBound L g2)"
    and "M = arc_edge_id (snd (tl_planarity_run L True True s0 n m u v embedFlags))"
  shows "(\<forall>a. M (gp_GetTwinArc L g3 a) = M a \<and> (M a = -1 \<or> 0 \<le> M a \<and> M a < m)) \<and>
         (\<forall>a b. 0 \<le> M a \<and> M b = M a \<longrightarrow> b = a \<or> b = gp_GetTwinArc L g3 a) \<and>
         (\<forall>a. 0 \<le> M a \<longrightarrow>
              endpoints_match L g3 u v a (M a) \<and>
              (\<forall>e'. 0 \<le> e' \<and> e' < M a \<and> endpoints_match L g3 u v a e' \<longrightarrow>
                    (\<exists>b. b < min a (gp_GetTwinArc L g3 a) \<and> M b = e'))) \<and>
         (\<forall>c. gp_GetFirstEdge L g3 \<le> c \<and> c < gp_EdgeInUseIndexBound L g3 \<and>
              gp_EdgeInUse L g3 c \<and> c \<le> gp_GetTwinArc L g3 c \<and> M c = -1 \<longrightarrow>
              (\<forall>e. 0 \<le> e \<and> e < m \<and> endpoints_match L g3 u v c e \<longrightarrow> (\<exists>b. b < c \<and> M b = e)))"
proof -
  let ?s = "snd (tl_planarity_run L True True s0 n m u v embedFlags)"
  let ?size = "gp_EdgeIndexBound L g2"
  let ?tab = "build_arc_map L g3 m u v ?size (replicate (nat ?size) (-1))"
  have "g_edgeIdByArc ?s = Some ?tab" and size: "g_edgeIdByArcSize ?s = ?size"
    using run_arc_map [OF assms(1-6), of s0 embedFlags] by simp_all
  moreover have "length ?tab = nat ?size"
    by (simp add: build_arc_map_length)
  ultimately have "arc_edge_id ?s = map_entry ?size ?tab"
    using arc_edge_id_map_entry [of ?s ?tab] by simp
  then have "M = map_entry ?size ?tab"
    using assms(8) by simp
  then show ?thesis
    by (rule build_arc_map_matching [OF assms(7)])
qed

theorem run_arc_map_matching_witness:
  "map (arc_edge_id triangle_session) [0, 1, 2, 3, 4, 5, 6] = [0, 0, 1, 1, 2, 2, -1] \<and>
   arc_edge_id triangle_session (gp_GetTwinArc sampleLib triangle_graph 4)
     = arc_edge_id triangle_session 4 \<and>
   endpoints_match sampleLib triangle_graph triangle_u triangle_v 4
     (arc_edge_id triangle_session 4)"
proof -
  let ?g0 = "\<lparr>sg_N = 0, sg_arcCapacity = 0, sg_edges = [], sg_minorType = 0\<rparr>"
  let ?g1 = "\<lparr>sg_N = 0, sg_arcCapacity = 18, sg_edges = [], sg_minorType = 0\<rparr>"
  let ?g2 = "\<lparr>sg_N = 3, sg_arcCapacity = 18, sg_edges = [], sg_minorType = 0\<rparr>"
  have new: "gp_New sampleLib = Some ?g0"
    by (simp add: sampleLib_def)
  have cap: "gp_EnsureArcCapacity sampleLib ?g0 (if (3::int) * 2 + 4 < 6 * (3::int) then 6 * (3::int) else (3::int) * 2 + 4)
               = (OK sampleLib, ?g1)"
    by (simp add: sampleLib_def)
  have init: "gp_InitGraph sampleLib ?g1 3 = (OK sampleLib, ?g2)"
    by (simp add: sampleLib_def)
  have add: "add_edges sampleLib ?g2 triangle_u triangle_v [0..3 - 1] = (True, triangle_graph)"
    by code_simp
  have invol: "(if even (if even a then a + 1 else a - 1)
                then (if even a then a + 1 else a - 1) + 1
                else (if even a then a + 1 else a - 1) - 1) = a" for a :: int
    by simp
  have closed: "(0 \<le> (if even a then a + 1 else a - 1) \<and> (if even a then a + 1 else a - 1) < 18)
                  = (0 \<le> a \<and> a < 18)" for a :: int
    by presburger
  have tp: "twin_pairing sampleLib triangle_graph (gp_EdgeIndexBound sampleLib ?g2)"
    unfolding twin_pairing_def
    using invol closed by (simp add: sampleLib_def sample_bound_def triangle_graph_def)
  have ids: "map (arc_edge_id triangle_session) [0, 1, 2, 3, 4, 5, 6] = [0, 0, 1, 1, 2, 2, -1]"
    unfolding triangle_session_def by code_simp
  then have pos: "0 \<le> arc_edge_id triangle_session 4"
    by simp
  have n: "(0::int) < 3" "(0::int) \<le> 3"
    by simp_all
  have M: "arc_edge_id triangle_session =
             arc_edge_id (snd (tl_planarity_run sampleLib True True initial_session 3 3
                                 triangle_u triangle_v 1))"
    by (simp add: triangle_session_def)
  note matching = run_arc_map_matching [OF n new cap init add tp M]
  have "arc_edge_id triangle_session (gp_GetTwinArc sampleLib triangle_graph 4)
          = arc_edge_id triangle_session 4"
    using matching by blast
  moreover have "endpoints_match sampleLib triangle_graph triangle_u triangle_v 4
                   (arc_edge_id triangle_session 4)"
    using matching pos by blast
  ultimately show ?thesis
    using ids by simp
qed

subsection \<open>The rotation size of an embedded graph\<close>

lemma count_list_eq_length:
  assumes "\<forall>x. count_list xs x = count_list ys x"
  shows "length xs = length ys"
proof -
  have "set xs = set ys"
    using assms by (metis count_list_0_iff subsetI subset_antisym)
  then have "sum (count_list xs) (set xs) = sum (count_list ys) (set ys)"
    using assms by simp
  then show ?thesis
    by (simp add: sum_count_set)
qed

lemma indicator_sum_upto:
  assumes "0 \<le> x" and "x < n"
  shows "(\<Sum>w\<leftarrow>[0..n - 1]. if x = w then 1 else 0) = (1::nat)"
proof -
  have "(\<Sum>w\<leftarrow>[0..n - 1]. if x = w then 1 else 0) =
        (\<Sum>w \<in> set [0..n - 1]. if x = w then 1 else (0::nat))"
    by (rule sum_list_distinct_conv_sum_set) simp
  also have "\<dots> = 1"
    using assms by simp
  finally show ?thesis .
qed

lemma endpoint_count:
  assumes "\<forall>i \<in> set es. 0 \<le> f i \<and> f i < n"
  shows "(\<Sum>w\<leftarrow>[0..n - 1]. length (filter (\<lambda>i. f i = w) es)) = length es"
  using assms
proof (induction es)
  case Nil
  then show ?case by simp
next
  case (Cons i es)
  have "(\<Sum>w\<leftarrow>[0..n - 1]. length (filter (\<lambda>j. f j = w) (i # es))) =
        (\<Sum>w\<leftarrow>[0..n - 1]. (if f i = w then 1 else 0) + length (filter (\<lambda>j. f j = w) es))"
    by (intro arg_cong [where f = sum_list] map_cong) auto
  also have "\<dots> = (\<Sum>w\<leftarrow>[0..n - 1]. if f i = w then 1 else 0) +
                  (\<Sum>w\<leftarrow>[0..n - 1]. length (filter (\<lambda>j. f j = w) es))"
    by (simp add: sum_list_addf)
  also have "\<dots> = 1 + length es"
    using Cons indicator_sum_upto [of "f i" n] by simp
  finally show ?case by simp
qed

lemma input_degree_sum:
  assumes "0 \<le> m" and "\<forall>i. 0 \<le> i \<and> i < m \<longrightarrow> 0 \<le> u i \<and> u i < n \<and> 0 \<le> v i \<and> v i < n"
  shows "(\<Sum>w\<leftarrow>[0..n - 1]. length (input_neighbors m u v w)) = nat (2 * m)"
proof -
  have "(\<Sum>w\<leftarrow>[0..n - 1]. length (input_neighbors m u v w)) =
        (\<Sum>w\<leftarrow>[0..n - 1]. length (filter (\<lambda>i. u i = w) [0..m - 1])) +
        (\<Sum>w\<leftarrow>[0..n - 1]. length (filter (\<lambda>i. v i = w) [0..m - 1]))"
    by (simp add: input_neighbors_def sum_list_addf)
  also have "\<dots> = length [0..m - 1] + length [0..m - 1]"
    using assms(2) endpoint_count [of "[0..m - 1]" u n] endpoint_count [of "[0..m - 1]" v n]
    by simp
  also have "\<dots> = nat (2 * m)"
    using assms(1) by simp
  finally show ?thesis .
qed

lemma run_ok_state_aux:
  "(case tl_planarity_run L mallocOk callocOk s0 n m u v embedFlags of
      (r, s) \<Rightarrow> r = OK L \<and> NOTOK L \<noteq> OK L \<longrightarrow>
        g_lastEmbedResult s = OK L \<and> g_vertexCount s = n \<and> g_edgeCount s = m \<and>
        g_graph s \<noteq> None \<and> 0 < n \<and> 0 \<le> m)"
  by (simp add: tl_planarity_run_def clear_state_initial initial_session_def Let_def
        split: option.split prod.split bool.split)

text \<open>
  Claim C3. Take a run that returns OK, on a library whose codes OK and NOTOK differ,
  with every endpoint of the \<open>m\<close> input edges in \<open>[0, n)\<close>, and let the embedded
  graph list at every vertex its input adjacency, as the spec says of the library. Then
  the rotation size is exactly \<open>2 * m\<close>. The count does not depend on the arc map, so
  the theorem needs no hypothesis on repeated endpoint pairs and covers the runs of the
  claim, which have none.
\<close>

theorem rotation_size_twice_edges:
  assumes run: "tl_planarity_run L mallocOk callocOk s0 n m u v embedFlags = (OK L, s)"
    and codes: "NOTOK L \<noteq> OK L"
    and graph: "g_graph s = Some g"
    and ends: "\<forall>i. 0 \<le> i \<and> i < m \<longrightarrow> 0 \<le> u i \<and> u i < n \<and> 0 \<le> v i \<and> v i < n"
    and lib: "embeds_input L g n m u v adj"
  shows "tl_planarity_rotation_size L s = Some (2 * m)"
proof -
  have st: "g_lastEmbedResult s = OK L" "g_vertexCount s = n" "0 \<le> m"
    using run_ok_state_aux [where L = L and mallocOk = mallocOk and callocOk = callocOk
        and ?s0.0 = s0 and n = n and m = m and u = u and v = v and embedFlags = embedFlags]
      run codes by simp_all
  have walks: "\<forall>w \<in> set [0..n - 1]. arc_walk L g (gp_GetFirstArc L g w) (adj w)"
    using lib by (simp add: embeds_input_def)
  have len: "length (adj w) = length (input_neighbors m u v w)" if "w \<in> set [0..n - 1]" for w
  proof -
    have "\<forall>x. count_list (map (gp_GetNeighbor L g) (adj w)) x
               = count_list (input_neighbors m u v w) x"
      using lib that by (simp add: embeds_input_def)
    then have "length (map (gp_GetNeighbor L g) (adj w)) = length (input_neighbors m u v w)"
      by (rule count_list_eq_length)
    then show ?thesis by simp
  qed
  have "length (concat (map adj [0..n - 1])) = (\<Sum>w\<leftarrow>[0..n - 1]. length (adj w))"
    by (simp add: length_concat comp_def)
  also have "\<dots> = (\<Sum>w\<leftarrow>[0..n - 1]. length (input_neighbors m u v w))"
    using len by (intro arg_cong [where f = sum_list] map_cong) auto
  also have "\<dots> = nat (2 * m)"
    using input_degree_sum [OF st(3) ends] .
  finally have "int (length (concat (map adj [0..n - 1]))) = 2 * m"
    using st(3) by simp
  then show ?thesis
    using graph st(1,2) rotation_size_loop_walk [OF walks, of 0]
    by (simp add: tl_planarity_rotation_size_def)
qed

theorem rotation_size_twice_edges_witness:
  "tl_planarity_rotation_size sampleLib triangle_session = Some (2 * 3)"
proof -
  have run: "tl_planarity_run sampleLib True True initial_session 3 3 triangle_u triangle_v 1
               = (OK sampleLib, triangle_session)"
  proof -
    have "fst (tl_planarity_run sampleLib True True initial_session 3 3 triangle_u triangle_v 1)
            = OK sampleLib"
      by code_simp
    then show ?thesis
      unfolding triangle_session_def by (metis prod.collapse)
  qed
  have codes: "NOTOK sampleLib \<noteq> OK sampleLib"
    by (simp add: sampleLib_def)
  have graph: "g_graph triangle_session = Some triangle_graph"
    unfolding triangle_session_def by code_simp
  have ends: "\<forall>i. 0 \<le> i \<and> i < 3 \<longrightarrow>
                0 \<le> triangle_u i \<and> triangle_u i < 3 \<and> 0 \<le> triangle_v i \<and> triangle_v i < 3"
    by (simp add: triangle_u_def triangle_v_def)
  have walk: "arc_walk sampleLib triangle_graph (gp_GetFirstArc sampleLib triangle_graph 0)
                (triangle_adj 0)"
    "arc_walk sampleLib triangle_graph (gp_GetFirstArc sampleLib triangle_graph 1)
                (triangle_adj 1)"
    "arc_walk sampleLib triangle_graph (gp_GetFirstArc sampleLib triangle_graph 2)
                (triangle_adj 2)"
    by code_simp+
  have nbs: "map (gp_GetNeighbor sampleLib triangle_graph) (triangle_adj 0) = [1, 2]"
    "map (gp_GetNeighbor sampleLib triangle_graph) (triangle_adj 1) = [0, 2]"
    "map (gp_GetNeighbor sampleLib triangle_graph) (triangle_adj 2) = [1, 0]"
    by code_simp+
  have inp: "input_neighbors 3 triangle_u triangle_v 0 = [1, 2]"
    "input_neighbors 3 triangle_u triangle_v 1 = [2, 0]"
    "input_neighbors 3 triangle_u triangle_v 2 = [0, 1]"
    by code_simp+
  have lib: "embeds_input sampleLib triangle_graph 3 3 triangle_u triangle_v triangle_adj"
    unfolding embeds_input_def
  proof (intro allI impI)
    fix w :: int
    assume "0 \<le> w \<and> w < 3"
    then have "w = 0 \<or> w = 1 \<or> w = 2"
      by arith
    then show "arc_walk sampleLib triangle_graph (gp_GetFirstArc sampleLib triangle_graph w)
                 (triangle_adj w) \<and>
               (\<forall>x. count_list (map (gp_GetNeighbor sampleLib triangle_graph) (triangle_adj w)) x
                      = count_list (input_neighbors 3 triangle_u triangle_v w) x)"
      using walk nbs inp by auto
  qed
  show ?thesis
    using rotation_size_twice_edges [OF run codes graph ends lib] .
qed

end
